theory Spec2Isabelle
  imports Main
begin

section \<open>JavaScript values\<close>

text \<open>
  Both \<^verbatim>\<open>Default.ts\<close> and \<^verbatim>\<open>SchemaBuilder.ts\<close> work on plain deserialised JSON documents,
  typed \<^verbatim>\<open>any\<close> or \<^verbatim>\<open>JSONSchema\<close>. A value is \<^verbatim>\<open>undefined\<close>, \<^verbatim>\<open>null\<close>, a boolean, a number,
  a string, an array or an object. Conventions of the embedding:
  \<^item> numbers are integers (the schemas of interest carry counts such as \<^verbatim>\<open>minItems\<close>);
    fractions, \<^verbatim>\<open>NaN\<close> and the infinities are not represented;
  \<^item> an object is the list of its own enumerable properties in insertion order; a real
    object never has the same key twice, which theorems that depend on it assume as
    \<open>distinct (map fst kvs)\<close>. The reordering of integer-like keys is not represented;
  \<^item> members inherited from \<^verbatim>\<open>Object.prototype\<close> and the other built-in prototypes
    (\<^verbatim>\<open>constructor\<close>, \<^verbatim>\<open>toString\<close>, \<^verbatim>\<open>hasOwnProperty\<close>, ...) are not represented: property
    names are assumed not to collide with them. Of the built-in members only \<^verbatim>\<open>length\<close>
    and the indices of arrays and strings are readable through \<open>js_get\<close>.
\<close>

datatype json = JUndef | JNull | JBool bool | JNum int | JStr string
  | JArr "json list" | JObj "(string \<times> json) list"

text \<open>
  What a call can throw. \<open>VError\<close> is the builder's own error with its message;
  \<open>TypeError\<close> and \<open>SyntaxError\<close> are raised by the JavaScript runtime (reading a property
  of \<^verbatim>\<open>null\<close>, calling a missing method, assigning to a primitive in strict mode,
  \<^verbatim>\<open>JSON.parse(undefined)\<close>). \<open>Unmodelled\<close> marks an input on which the JavaScript
  behaviour relies on implicit coercions or on exotic objects (arrays with holes or extra
  properties) outside the value model: nothing is stated about the code there.
  \<open>OutOfFuel\<close> is returned by the fuelled recursion of \<open>defaults\<close> when the fuel does
  not suffice.
\<close>

datatype error = VError string | TypeError | SyntaxError | Unmodelled | OutOfFuel

fun truthy :: "json \<Rightarrow> bool" where
  "truthy JUndef = False"
| "truthy JNull = False"
| "truthy (JBool b) = b"
| "truthy (JNum n) = (n \<noteq> 0)"
| "truthy (JStr s) = (s \<noteq> [])"
| "truthy (JArr xs) = True"
| "truthy (JObj kvs) = True"

definition nullish :: "json \<Rightarrow> bool" where
  "nullish v = (v = JUndef \<or> v = JNull)"

definition digit :: "nat \<Rightarrow> char" where
  "digit d = ''0123456789'' ! d"

function show_nat :: "nat \<Rightarrow> string" where
  "show_nat n = (if n < 10 then [digit n] else show_nat (n div 10) @ [digit (n mod 10)])"
  by pat_completeness auto
termination
  by (relation "measure id") auto

declare show_nat.simps [simp del]

definition show_int :: "int \<Rightarrow> string" where
  "show_int i = (if i < 0 then CHR ''-'' # show_nat (nat (- i)) else show_nat (nat i))"

text \<open>The array index below \<open>n\<close> that the property name \<open>k\<close> denotes, if any.\<close>

definition index_of :: "string \<Rightarrow> nat \<Rightarrow> nat option" where
  "index_of k n = find (\<lambda>i. show_nat i = k) [0..<n]"

fun lookup :: "(string \<times> json) list \<Rightarrow> string \<Rightarrow> json" where
  "lookup [] k = JUndef"
| "lookup ((k', v) # kvs) k = (if k' = k then v else lookup kvs k)"

text \<open>
  \<open>js_get v k\<close> is the property read \<^verbatim>\<open>v[k]\<close> on a value that is neither \<^verbatim>\<open>undefined\<close> nor
  \<^verbatim>\<open>null\<close> (on those the read throws, which every caller below checks first).
\<close>

fun js_get :: "json \<Rightarrow> string \<Rightarrow> json" where
  "js_get (JObj kvs) k = lookup kvs k"
| "js_get (JArr xs) k =
     (if k = ''length'' then JNum (int (length xs))
      else case index_of k (length xs) of Some i \<Rightarrow> xs ! i | None \<Rightarrow> JUndef)"
| "js_get (JStr s) k =
     (if k = ''length'' then JNum (int (length s))
      else case index_of k (length s) of Some i \<Rightarrow> JStr [s ! i] | None \<Rightarrow> JUndef)"
| "js_get v k = JUndef"

text \<open>The operator \<^verbatim>\<open>k in v\<close> on an object: an own key counts even when its value is \<^verbatim>\<open>undefined\<close>.\<close>

definition has_key :: "(string \<times> json) list \<Rightarrow> string \<Rightarrow> bool" where
  "has_key kvs k = (k \<in> set (map fst kvs))"

text \<open>
  Assignment \<^verbatim>\<open>obj[k] = v\<close> on an object keeps the position of an existing key and puts a
  new key last; \<^verbatim>\<open>delete obj[k]\<close> removes the key.
\<close>

fun upd :: "string \<Rightarrow> json \<Rightarrow> (string \<times> json) list \<Rightarrow> (string \<times> json) list" where
  "upd k v [] = [(k, v)]"
| "upd k v ((k', v') # kvs) = (if k' = k then (k, v) # kvs else (k', v') # upd k v kvs)"

definition del :: "string \<Rightarrow> (string \<times> json) list \<Rightarrow> (string \<times> json) list" where
  "del k kvs = filter (\<lambda>p. fst p \<noteq> k) kvs"

text \<open>
  \<open>js_put v k x\<close> is the assignment \<^verbatim>\<open>v[k] = x\<close> in strict mode (\<^verbatim>\<open>Default.ts\<close> starts with
  \<^verbatim>\<open>'use strict'\<close>): it throws on a primitive; on an array it is represented for an index
  inside the array or just past its end.
\<close>

fun js_put :: "json \<Rightarrow> string \<Rightarrow> json \<Rightarrow> error + json" where
  "js_put (JObj kvs) k v = Inr (JObj (upd k v kvs))"
| "js_put (JArr xs) k v =
     (case index_of k (Suc (length xs)) of
        Some i \<Rightarrow> Inr (JArr (if i < length xs then xs[i := v] else xs @ [v]))
      | None \<Rightarrow> Inl Unmodelled)"
| "js_put t k v = Inl TypeError"

text \<open>The keys a \<^verbatim>\<open>for (key in v)\<close> loop visits.\<close>

fun forin_keys :: "json \<Rightarrow> string list" where
  "forin_keys (JObj kvs) = map fst kvs"
| "forin_keys (JArr xs) = map show_nat [0..<length xs]"
| "forin_keys (JStr s) = map show_nat [0..<length s]"
| "forin_keys v = []"

fun join :: "string list \<Rightarrow> string" where
  "join [] = []"
| "join [s] = s"
| "join (s # t # ss) = s @ CHR '','' # join (t # ss)"

text \<open>\<^verbatim>\<open>v.toString()\<close>; an array joins its elements with commas, \<^verbatim>\<open>null\<close> and \<^verbatim>\<open>undefined\<close> elements as empty strings.\<close>

fun js_toString :: "json \<Rightarrow> string" where
  "js_toString JUndef = ''undefined''"
| "js_toString JNull = ''null''"
| "js_toString (JBool b) = (if b then ''true'' else ''false'')"
| "js_toString (JNum n) = show_int n"
| "js_toString (JStr s) = s"
| "js_toString (JArr xs) = join (map (\<lambda>x. if nullish x then [] else js_toString x) xs)"
| "js_toString (JObj kvs) = ''[object Object]''"

section \<open>Default.ts\<close>

text \<open>
  \<^verbatim>\<open>isObject(item)\<close>: \<^verbatim>\<open>typeof item === 'object' && item !== null && item.toString() === {}.toString()\<close>.
  \<^verbatim>\<open>typeof\<close> is \<^verbatim>\<open>'object'\<close> for objects, arrays and \<^verbatim>\<open>null\<close>.
\<close>

definition isObject :: "json \<Rightarrow> bool" where
  "isObject item =
     ((case item of JArr xs \<Rightarrow> True | JObj kvs \<Rightarrow> True | _ \<Rightarrow> False)
      \<and> js_toString item = ''[object Object]'')"

text \<open>
  \<^verbatim>\<open>cloneJSON(source)\<close> is \<^verbatim>\<open>JSON.parse(JSON.stringify(source))\<close>: the serialisation drops the
  object properties whose value is \<^verbatim>\<open>undefined\<close> and writes \<^verbatim>\<open>null\<close> for such an array
  element; \<^verbatim>\<open>JSON.stringify(undefined)\<close> is \<^verbatim>\<open>undefined\<close>, which \<^verbatim>\<open>JSON.parse\<close> rejects.
\<close>

fun json_roundtrip :: "json \<Rightarrow> json" where
  "json_roundtrip (JArr xs) = JArr (map (\<lambda>x. if x = JUndef then JNull else json_roundtrip x) xs)"
| "json_roundtrip (JObj kvs) =
     JObj (map (\<lambda>(k, v). (k, json_roundtrip v)) (filter (\<lambda>(k, v). v \<noteq> JUndef) kvs))"
| "json_roundtrip v = v"

definition cloneJSON :: "json \<Rightarrow> error + json" where
  "cloneJSON source = (if source = JUndef then Inl SyntaxError else Inr (json_roundtrip source))"

lemma lookup_size:
  "lookup kvs k \<noteq> JUndef \<Longrightarrow> size (lookup kvs k) < Suc (size_list (size_prod (\<lambda>x. 0) size) kvs)"
  by (induction kvs) (auto split: if_splits)

lemma index_of_less: "index_of k n = Some i \<Longrightarrow> i < n"
  unfolding index_of_def by (auto simp: find_Some_iff)

lemma nth_size: "i < length xs \<Longrightarrow> size (xs ! i) < Suc (size_list size xs)"
proof (induction xs arbitrary: i)
  case Nil
  then show ?case by simp
next
  case (Cons a xs)
  show ?case
  proof (cases i)
    case 0
    then show ?thesis by simp
  next
    case (Suc j)
    with Cons.prems have "j < length xs" by simp
    from Cons.IH [OF this] Suc show ?thesis by simp
  qed
qed

lemma isObject_simps [simp]:
  "\<not> isObject JUndef" "\<not> isObject JNull" "\<not> isObject (JBool b)" "\<not> isObject (JNum n)"
  "\<not> isObject (JStr s)" "isObject (JObj kvs)"
  by (simp_all add: isObject_def)

lemma js_get_size:
  assumes "isObject (js_get s k)"
  shows "size (js_get s k) < size s"
proof (cases s)
  case (JObj kvs)
  with assms have "lookup kvs k \<noteq> JUndef" by auto
  from lookup_size [OF this] JObj show ?thesis by simp
next
  case (JArr xs)
  with assms obtain i where "index_of k (length xs) = Some i" "k \<noteq> ''length''"
    by (auto split: if_splits option.splits)
  with JArr nth_size [of i xs] index_of_less [of k "length xs" i] show ?thesis by simp
next
  case (JStr x)
  with assms show ?thesis by (auto split: if_splits option.splits)
qed (use assms in auto)

text \<open>
  \<^verbatim>\<open>merge(target, source)\<close>. \<open>merge_keys\<close> is the \<^verbatim>\<open>for (var key in source)\<close> loop over the keys
  still to visit; \<^verbatim>\<open>source.hasOwnProperty(key)\<close> holds for each of them.
\<close>

function merge :: "json \<Rightarrow> json \<Rightarrow> error + json"
  and merge_keys :: "json \<Rightarrow> json \<Rightarrow> string list \<Rightarrow> error + json" where
  "merge target source =
     (case cloneJSON target of
        Inl e \<Rightarrow> Inl e
      | Inr t \<Rightarrow> merge_keys t source (forin_keys source))"
| "merge_keys target source [] = Inr target"
| "merge_keys target source (key # keys) =
     (if nullish target then Inl TypeError
      else if isObject (js_get target key) \<and> isObject (js_get source key) then
        (case merge (js_get target key) (js_get source key) of
           Inl e \<Rightarrow> Inl e
         | Inr m \<Rightarrow>
            (case js_put target key m of
               Inl e \<Rightarrow> Inl e
             | Inr t \<Rightarrow> merge_keys t source keys))
      else
        (case js_put target key (js_get source key) of
           Inl e \<Rightarrow> Inl e
         | Inr t \<Rightarrow> merge_keys t source keys))"
  by pat_completeness auto

termination
  by (relation "inv_image (less_than <*lex*> less_than <*lex*> less_than)
        (\<lambda>x. case x of Inl (t, s) \<Rightarrow> (size s, Suc 0, 0)
                      | Inr (t, s, ks) \<Rightarrow> (size s, 0, length ks))")
     (auto simp: js_get_size)

text \<open>
  \<^verbatim>\<open>getLocalRef(path, definitions)\<close>. \<^verbatim>\<open>path.replace(/^#\/definitions\//, '')\<close> removes the
  prefix when the string starts with it, \<^verbatim>\<open>split('/')\<close> cuts the rest at every slash; a
  \<^verbatim>\<open>path\<close> that is not a string has no \<^verbatim>\<open>replace\<close> method. \<open>find_ref\<close> is the inner
  function \<^verbatim>\<open>find\<close>; \<^verbatim>\<open>path.shift()\<close> of an empty array is \<^verbatim>\<open>undefined\<close>, which as a
  property name reads \<^verbatim>\<open>'undefined'\<close>.
\<close>

definition strip_prefix :: "string \<Rightarrow> string \<Rightarrow> string" where
  "strip_prefix p s = (if take (length p) s = p then drop (length p) s else s)"

fun split_on :: "char \<Rightarrow> string \<Rightarrow> string list" where
  "split_on c [] = [[]]"
| "split_on c (x # xs) =
     (if x = c then [] # split_on c xs
      else case split_on c xs of w # ws \<Rightarrow> (x # w) # ws | [] \<Rightarrow> [[x]])"

fun find_ref :: "string list \<Rightarrow> json \<Rightarrow> error + json" where
  "find_ref [] root =
     (if nullish root then Inl TypeError
      else if \<not> truthy (js_get root ''undefined'') then Inr (JObj [])
      else Inr (js_get root ''undefined''))"
| "find_ref (key # path) root =
     (if nullish root then Inl TypeError
      else if \<not> truthy (js_get root key) then Inr (JObj [])
      else if path = [] then Inr (js_get root key)
      else find_ref path (js_get root key))"

definition ref_path :: "string \<Rightarrow> string list" where
  "ref_path p = split_on CHR ''/'' (strip_prefix ''#/definitions/'' p)"

definition getLocalRef :: "json \<Rightarrow> json \<Rightarrow> error + json" where
  "getLocalRef path definitions =
     (case path of
        JStr p \<Rightarrow>
          (case find_ref (ref_path p) definitions of
             Inl e \<Rightarrow> Inl e
           | Inr result \<Rightarrow> if \<not> isObject result then Inr result else cloneJSON result)
      | _ \<Rightarrow> Inl TypeError)"

text \<open>
  \<^verbatim>\<open>mergeAllOf(allOfList, definitions)\<close>. \<open>allOf_items\<close> lists \<^verbatim>\<open>allOfList[0]\<close>, ...,
  \<^verbatim>\<open>allOfList[length - 1]\<close> for \<^verbatim>\<open>length = allOfList.length\<close>: the elements of an array, the
  characters of a string, nothing for a number or boolean (their \<^verbatim>\<open>length\<close> is \<^verbatim>\<open>undefined\<close>
  and \<^verbatim>\<open>0 < undefined\<close> is false); an object is read through its own \<^verbatim>\<open>length\<close> property.
  \<open>mergeAllOf_loop\<close> is the \<^verbatim>\<open>while\<close> loop with the running \<^verbatim>\<open>result\<close>.
\<close>

definition allOf_items :: "json \<Rightarrow> error + json list" where
  "allOf_items allOfList =
     (case allOfList of
        JUndef \<Rightarrow> Inl TypeError
      | JNull \<Rightarrow> Inl TypeError
      | JBool b \<Rightarrow> Inr []
      | JNum n \<Rightarrow> Inr []
      | JStr s \<Rightarrow> Inr (map (\<lambda>c. JStr [c]) s)
      | JArr xs \<Rightarrow> Inr xs
      | JObj kvs \<Rightarrow>
          (case lookup kvs ''length'' of
             JUndef \<Rightarrow> Inr []
           | JNull \<Rightarrow> Inr []
           | JNum n \<Rightarrow> Inr (map (\<lambda>i. lookup kvs (show_nat i)) [0..<nat n])
           | _ \<Rightarrow> Inl Unmodelled))"

fun mergeAllOf_loop :: "json \<Rightarrow> json \<Rightarrow> json list \<Rightarrow> error + json" where
  "mergeAllOf_loop definitions result [] = Inr result"
| "mergeAllOf_loop definitions result (item # items) =
     (if nullish item then Inl TypeError
      else
        case (if js_get item ''$ref'' \<noteq> JUndef then getLocalRef (js_get item ''$ref'') definitions
              else Inr item) of
          Inl e \<Rightarrow> Inl e
        | Inr item' \<Rightarrow>
            (case merge result item' of
               Inl e \<Rightarrow> Inl e
             | Inr result' \<Rightarrow> mergeAllOf_loop definitions result' items))"

definition mergeAllOf :: "json \<Rightarrow> json \<Rightarrow> error + json" where
  "mergeAllOf allOfList definitions =
     (case allOf_items allOfList of
        Inl e \<Rightarrow> Inl e
      | Inr items \<Rightarrow> mergeAllOf_loop definitions (JObj []) items)"

text \<open>
  The pieces of \<^verbatim>\<open>defaults(schema, definitions)\<close>; \<open>dflt\<close> stands for the recursive call
  \<^verbatim>\<open>defaults(_, definitions)\<close>.

  \<open>defaults_properties\<close> is the loop of the object case over the keys of
  \<^verbatim>\<open>schema.properties\<close>: each property is overwritten by its default and deleted when that
  is \<^verbatim>\<open>undefined\<close>. On an array the deletion would leave a hole.
\<close>

fun defaults_properties :: "(json \<Rightarrow> error + json) \<Rightarrow> json \<Rightarrow> string list \<Rightarrow> error + json" where
  "defaults_properties dflt properties [] = Inr properties"
| "defaults_properties dflt properties (key # keys) =
     (case dflt (js_get properties key) of
        Inl e \<Rightarrow> Inl e
      | Inr d \<Rightarrow>
          (case js_put properties key d of
             Inl e \<Rightarrow> Inl e
           | Inr properties' \<Rightarrow>
               (if d = JUndef then
                  (case properties' of
                     JObj kvs \<Rightarrow> defaults_properties dflt (JObj (del key kvs)) keys
                   | _ \<Rightarrow> Inl Unmodelled)
                else defaults_properties dflt properties' keys)))"

text \<open>\<^verbatim>\<open>schema.items.map(function (item) { return defaults(item, definitions); })\<close>, left to right.\<close>

fun map_defaults :: "(json \<Rightarrow> error + json) \<Rightarrow> json list \<Rightarrow> error + json list" where
  "map_defaults dflt [] = Inr []"
| "map_defaults dflt (item # items) =
     (case dflt item of
        Inl e \<Rightarrow> Inl e
      | Inr v \<Rightarrow> (case map_defaults dflt items of Inl e \<Rightarrow> Inl e | Inr vs \<Rightarrow> Inr (v # vs)))"

text \<open>
  The loop \<^verbatim>\<open>for (var i = values.length - 1; i >= 0; i--)\<close> that removes undefined items at
  the end: the third argument is \<open>i + 1\<close>, so that \<open>0\<close> is the exit \<^verbatim>\<open>i < 0\<close>. A read past
  the end of an array is \<^verbatim>\<open>undefined\<close>; \<^verbatim>\<open>values.pop()\<close> removes the last element.
\<close>

definition nth_or_undef :: "json list \<Rightarrow> nat \<Rightarrow> json" where
  "nth_or_undef xs i = (if i < length xs then xs ! i else JUndef)"

fun trim_loop :: "int \<Rightarrow> json list \<Rightarrow> nat \<Rightarrow> json list" where
  "trim_loop ct values 0 = values"
| "trim_loop ct values (Suc i) =
     (if nth_or_undef values i \<noteq> JUndef then values
      else trim_loop ct (if int i + 1 > ct then butlast values else values) i)"

text \<open>
  \<^verbatim>\<open>var ct = schema.minItems || 0\<close> is compared with numbers (\<^verbatim>\<open>i + 1 > ct\<close>,
  \<^verbatim>\<open>Math.max(1, ct)\<close>): a number stands for itself and \<^verbatim>\<open>true\<close> for 1; a string, array or
  object would be coerced.
\<close>

definition min_items :: "json \<Rightarrow> error + int" where
  "min_items schema =
     (let m = js_get schema ''minItems'' in
      if \<not> truthy m then Inr 0
      else case m of JNum n \<Rightarrow> Inr n | JBool b \<Rightarrow> Inr 1 | _ \<Rightarrow> Inl Unmodelled)"

text \<open>
  \<^verbatim>\<open>defaults(schema, definitions)\<close>. The recursion follows \<^verbatim>\<open>$ref\<close> into the definitions
  and need not end (a definition that refers to itself), so the first argument bounds its
  depth. \<^verbatim>\<open>schema.items.constructor === Array\<close> holds exactly for an array.
\<close>

fun defaults :: "nat \<Rightarrow> json \<Rightarrow> json \<Rightarrow> error + json" where
  "defaults 0 schema definitions = Inl OutOfFuel"
| "defaults (Suc n) schema definitions =
     (if nullish schema then Inl TypeError
      else if js_get schema ''default'' \<noteq> JUndef then Inr (js_get schema ''default'')
      else if js_get schema ''allOf'' \<noteq> JUndef then
        (case mergeAllOf (js_get schema ''allOf'') definitions of
           Inl e \<Rightarrow> Inl e
         | Inr mergedItem \<Rightarrow> defaults n mergedItem definitions)
      else if js_get schema ''$ref'' \<noteq> JUndef then
        (case getLocalRef (js_get schema ''$ref'') definitions of
           Inl e \<Rightarrow> Inl e
         | Inr reference \<Rightarrow> defaults n reference definitions)
      else if js_get schema ''type'' = JStr ''object'' then
        (if \<not> truthy (js_get schema ''properties'') then Inr (JObj [])
         else defaults_properties (\<lambda>s. defaults n s definitions)
                (js_get schema ''properties'') (forin_keys (js_get schema ''properties'')))
      else if js_get schema ''type'' = JStr ''array'' then
        (if \<not> truthy (js_get schema ''items'') then Inr (JArr [])
         else
           case min_items schema of
             Inl e \<Rightarrow> Inl e
           | Inr ct \<Rightarrow>
              (case js_get schema ''items'' of
                 JArr items \<Rightarrow>
                   (case map_defaults (\<lambda>item. defaults n item definitions) items of
                      Inl e \<Rightarrow> Inl e
                    | Inr values \<Rightarrow> Inr (JArr (trim_loop ct values (length values))))
               | items \<Rightarrow>
                   (case defaults n items definitions of
                      Inl e \<Rightarrow> Inl e
                    | Inr value \<Rightarrow>
                        if value = JUndef then Inr (JArr [])
                        else Inr (JArr (replicate (nat (max 1 ct)) (json_roundtrip value))))))
      else Inr JUndef)"

text \<open>
  \<^verbatim>\<open>DefaultObject(schema, definitions)\<close>; \<open>effective_definitions\<close> is the value of its
  variable \<^verbatim>\<open>definitions\<close> when \<^verbatim>\<open>defaults\<close> is called. A caller that passes no definitions
  passes \<open>JUndef\<close>.
\<close>

definition effective_definitions :: "json \<Rightarrow> json \<Rightarrow> error + json" where
  "effective_definitions schema definitions =
     (if nullish schema then Inl TypeError
      else if definitions = JUndef then
        Inr (if truthy (js_get schema ''definitions'') then js_get schema ''definitions'' else JObj [])
      else if isObject (js_get schema ''definitions'') then
        merge definitions (js_get schema ''definitions'')
      else Inr definitions)"

definition DefaultObject :: "nat \<Rightarrow> json \<Rightarrow> json \<Rightarrow> error + json" where
  "DefaultObject fuel schema definitions =
     (case effective_definitions schema definitions of
        Inl e \<Rightarrow> Inl e
      | Inr definitions' \<Rightarrow>
          (case cloneJSON schema of
             Inl e \<Rightarrow> Inl e
           | Inr schema' \<Rightarrow> defaults fuel schema' definitions'))"

section \<open>utils: ThroughJsonSchema and CloneJSON\<close>

text \<open>
  These functions are in the file \<^verbatim>\<open>unnamed/part_000\<close>, which \<^verbatim>\<open>SchemaBuilder.ts\<close> imports as
  \<^verbatim>\<open>./utils.js\<close>.

  \<^verbatim>\<open>ThroughJsonSchema(schema, action)\<close>, for an \<open>action\<close> that inspects the node and either
  returns or throws (the use the constructor of \<^verbatim>\<open>SchemaBuilder\<close> makes of it); the result
  is the error thrown, if any. The calls are made in the order of the source, and the first
  error ends the traversal. \<^verbatim>\<open>schema.oneOf.forEach\<close> exists only on an array.
\<close>

fun first_error :: "error option list \<Rightarrow> error option" where
  "first_error [] = None"
| "first_error (None # rs) = first_error rs"
| "first_error (Some e # rs) = Some e"

lemma lookup_size_truthy:
  "truthy (lookup kvs k) \<Longrightarrow> size (lookup kvs k) < Suc (size_list (size_prod (\<lambda>x. 0) size) kvs)"
  by (rule lookup_size) auto

lemma js_get_size_le: "size (js_get v k) \<le> size v"
proof (cases v)
  case (JObj kvs)
  show ?thesis
  proof (cases "lookup kvs k = JUndef")
    case True
    with JObj show ?thesis by simp
  next
    case False
    from lookup_size [OF this] JObj show ?thesis by simp
  qed
next
  case (JArr xs)
  show ?thesis
  proof (cases "index_of k (length xs)")
    case None
    with JArr show ?thesis by simp
  next
    case (Some i)
    with JArr nth_size [of i xs] index_of_less [of k "length xs" i] show ?thesis by simp
  qed
qed (auto split: option.splits)

lemma elem_size: "x \<in> set xs \<Longrightarrow> size x < Suc (size_list size xs)"
  by (induction xs) auto

lemma lookup_arr_elem_size:
  assumes "lookup kvs k = JArr xs" "x \<in> set xs"
  shows "size x < Suc (size_list (size_prod (\<lambda>x. 0) size) kvs)"
proof -
  have "lookup kvs k \<noteq> JUndef" using assms by simp
  from lookup_size [OF this] assms(1) elem_size [OF assms(2)] show ?thesis by simp
qed

lemma lookup_get_size:
  assumes "truthy (lookup kvs k)"
  shows "size (js_get (lookup kvs k) k') < Suc (size_list (size_prod (\<lambda>x. 0) size) kvs)"
  using lookup_size_truthy [OF assms] js_get_size_le [of "lookup kvs k" k'] by simp

function ThroughJsonSchema :: "(json \<Rightarrow> error option) \<Rightarrow> json \<Rightarrow> error option" where
  "ThroughJsonSchema action schema =
     (case schema of
        JArr xs \<Rightarrow> first_error (map (ThroughJsonSchema action) xs)
      | JObj kvs \<Rightarrow>
          first_error
            [action schema,
             if truthy (lookup kvs ''properties'') then
               first_error (map (\<lambda>property. ThroughJsonSchema action (js_get (lookup kvs ''properties'') property))
                                (forin_keys (lookup kvs ''properties'')))
             else None,
             if truthy (lookup kvs ''oneOf'') then
               (case lookup kvs ''oneOf'' of
                  JArr xs \<Rightarrow> first_error (map (ThroughJsonSchema action) xs)
                | _ \<Rightarrow> Some TypeError)
             else None,
             if truthy (lookup kvs ''allOf'') then
               (case lookup kvs ''allOf'' of
                  JArr xs \<Rightarrow> first_error (map (ThroughJsonSchema action) xs)
                | _ \<Rightarrow> Some TypeError)
             else None,
             if truthy (lookup kvs ''anyOf'') then
               (case lookup kvs ''anyOf'' of
                  JArr xs \<Rightarrow> first_error (map (ThroughJsonSchema action) xs)
                | _ \<Rightarrow> Some TypeError)
             else None,
             if truthy (lookup kvs ''items'') then ThroughJsonSchema action (lookup kvs ''items'')
             else None,
             if truthy (lookup kvs ''not'') then ThroughJsonSchema action (lookup kvs ''not'')
             else None,
             if truthy (lookup kvs ''additionalProperties'')
                \<and> (case lookup kvs ''additionalProperties'' of JBool b \<Rightarrow> False | _ \<Rightarrow> True)
             then ThroughJsonSchema action (lookup kvs ''additionalProperties'')
             else None]
      | _ \<Rightarrow> None)"
  by pat_completeness auto

termination
  by (relation "measure (\<lambda>(action, schema). size schema)")
     (auto simp: elem_size lookup_size_truthy lookup_get_size lookup_arr_elem_size)

declare ThroughJsonSchema.simps [simp del]

text \<open>\<^verbatim>\<open>CloneJSON(o)\<close> copies arrays element by element and objects key by key.\<close>

fun CloneJSON :: "json \<Rightarrow> json" where
  "CloneJSON (JArr xs) = JArr (map CloneJSON xs)"
| "CloneJSON (JObj kvs) = JObj (map (\<lambda>(k, v). (k, CloneJSON v)) kvs)"
| "CloneJSON v = v"

section \<open>SchemaBuilder.ts\<close>

text \<open>
  A \<^verbatim>\<open>SchemaBuilder\<close> holds its schema and an optional validation configuration. The
  constructor runs \<^verbatim>\<open>ThroughJsonSchema\<close> with an action that throws on a node that has a
  \<^verbatim>\<open>$ref\<close> key.
\<close>

record SchemaBuilder =
  schemaObject :: json
  validationConfig :: json

definition and_then :: "error + 'a \<Rightarrow> ('a \<Rightarrow> error + 'b) \<Rightarrow> error + 'b" where
  "and_then m f = (case m of Inl e \<Rightarrow> Inl e | Inr x \<Rightarrow> f x)"

definition ref_message :: string where
  "ref_message = ''Schema Builder Error: $ref can'' @ [CHR 0x27]
     @ ''t be used to initialize a SchemaBuilder. Dereferenced the schema first.''"

definition ref_check :: "json \<Rightarrow> error option" where
  "ref_check s =
     (case s of
        JObj kvs \<Rightarrow> if has_key kvs ''$ref'' then Some (VError ref_message) else None
      | _ \<Rightarrow> None)"

definition new_SchemaBuilder :: "json \<Rightarrow> json \<Rightarrow> error + SchemaBuilder" where
  "new_SchemaBuilder schema config =
     (case ThroughJsonSchema ref_check schema of
        Some e \<Rightarrow> Inl e
      | None \<Rightarrow> Inr \<lparr>schemaObject = schema, validationConfig = config\<rparr>)"

text \<open>
  The operator \<^verbatim>\<open>k in v\<close> throws on a primitive. \<^verbatim>\<open>xs.indexOf(x) !== -1\<close> compares with
  \<^verbatim>\<open>===\<close> on an array (\<open>x\<close> is a string or \<^verbatim>\<open>null\<close> below), searches a substring on a string,
  and is a missing method elsewhere; \<^verbatim>\<open>push\<close> and \<^verbatim>\<open>filter\<close> exist on arrays only.
\<close>

definition js_in :: "string \<Rightarrow> json \<Rightarrow> error + bool" where
  "js_in k v =
     (case v of
        JObj kvs \<Rightarrow> Inr (has_key kvs k)
      | JArr xs \<Rightarrow> Inr (k = ''length'' \<or> index_of k (length xs) \<noteq> None)
      | _ \<Rightarrow> Inl TypeError)"

definition indexOf_found :: "json \<Rightarrow> json \<Rightarrow> error + bool" where
  "indexOf_found xs x =
     (case xs of
        JArr ys \<Rightarrow> Inr (x \<in> set ys)
      | JStr s \<Rightarrow> Inl Unmodelled
      | _ \<Rightarrow> Inl TypeError)"

definition js_push :: "json \<Rightarrow> json \<Rightarrow> error + json" where
  "js_push xs x = (case xs of JArr ys \<Rightarrow> Inr (JArr (ys @ [x])) | _ \<Rightarrow> Inl TypeError)"

definition js_filter :: "(json \<Rightarrow> bool) \<Rightarrow> json \<Rightarrow> error + json" where
  "js_filter P xs = (case xs of JArr ys \<Rightarrow> Inr (JArr (filter P ys)) | _ \<Rightarrow> Inl TypeError)"

text \<open>\<^verbatim>\<open>v || {}\<close> and \<^verbatim>\<open>v || []\<close>.\<close>

definition or_else :: "json \<Rightarrow> json \<Rightarrow> json" where
  "or_else v d = (if truthy v then v else d)"

subsection \<open>The classification getters\<close>

definition IsObjectSchema :: "SchemaBuilder \<Rightarrow> error + bool" where
  "IsObjectSchema this =
     (if nullish (schemaObject this) then Inl TypeError
      else if js_get (schemaObject this) ''type'' = JStr ''object'' then Inr True
      else and_then (js_in ''type'' (schemaObject this)) (\<lambda>hasType.
             if hasType then Inr False else js_in ''properties'' (schemaObject this)))"

definition HasAdditionalProperties :: "SchemaBuilder \<Rightarrow> error + bool" where
  "HasAdditionalProperties this =
     and_then (IsObjectSchema this) (\<lambda>isObj.
       Inr (isObj \<and> js_get (schemaObject this) ''additionalProperties'' \<noteq> JBool False))"

definition HasSchemasCombinationKeywords :: "SchemaBuilder \<Rightarrow> error + bool" where
  "HasSchemasCombinationKeywords this =
     and_then (js_in ''oneOf'' (schemaObject this)) (\<lambda>a.
       if a then Inr True
       else and_then (js_in ''allOf'' (schemaObject this)) (\<lambda>b.
         if b then Inr True
         else and_then (js_in ''anyOf'' (schemaObject this)) (\<lambda>c.
           if c then Inr True else js_in ''not'' (schemaObject this))))"

definition IsSimpleObjectSchema :: "SchemaBuilder \<Rightarrow> error + bool" where
  "IsSimpleObjectSchema this =
     and_then (IsObjectSchema this) (\<lambda>isObj.
       if \<not> isObj then Inr False
       else and_then (HasAdditionalProperties this) (\<lambda>hasAdd.
         if hasAdd then Inr False
         else and_then (HasSchemasCombinationKeywords this) (\<lambda>hasComb. Inr (\<not> hasComb))))"

text \<open>
  \<^verbatim>\<open>Properties\<close> and \<^verbatim>\<open>RequiredProperties\<close>; \<open>None\<close> is their result \<^verbatim>\<open>null\<close>. \<^verbatim>\<open>Object.keys\<close>
  lists the keys a \<^verbatim>\<open>for ... in\<close> loop visits. The spread \<^verbatim>\<open>[...required]\<close> copies an array.
\<close>

definition Properties :: "SchemaBuilder \<Rightarrow> error + string list option" where
  "Properties this =
     and_then (IsObjectSchema this) (\<lambda>isObj.
       if \<not> isObj then Inr None
       else and_then (HasSchemasCombinationKeywords this) (\<lambda>hasComb.
         if hasComb then Inr None
         else Inr (Some (forin_keys (or_else (js_get (schemaObject this) ''properties'') (JObj []))))))"

definition RequiredProperties :: "SchemaBuilder \<Rightarrow> error + json list option" where
  "RequiredProperties this =
     and_then (IsObjectSchema this) (\<lambda>isObj.
       if \<not> isObj then Inr None
       else and_then (HasSchemasCombinationKeywords this) (\<lambda>hasComb.
         if hasComb then Inr None
         else if \<not> truthy (js_get (schemaObject this) ''required'') then Inr (Some [])
         else case js_get (schemaObject this) ''required'' of
                JArr rs \<Rightarrow> Inr (Some rs)
              | JStr s \<Rightarrow> Inl Unmodelled
              | _ \<Rightarrow> Inl TypeError))"

definition quoted :: "string \<Rightarrow> string" where
  "quoted s = CHR 0x27 # s @ [CHR 0x27]"

definition simple_message :: "string \<Rightarrow> string" where
  "simple_message operation = ''Schema Builder Error: '' @ quoted operation
     @ '' can only be used with a simple object schema (no additionalProperties, oneOf, anyOf, allOf or not)''"

subsection \<open>ToNullable\<close>

text \<open>
  \<open>nullable_property\<close> is the body of the loop for a property that is not required: the new
  value of \<^verbatim>\<open>schemaObject.properties[propertyName]\<close>. \<open>nullable_loop\<close> is the loop over the
  property names still to visit.
\<close>

definition nullable_property :: "json \<Rightarrow> error + json" where
  "nullable_property propertyValue =
     (let wrapped = JObj [(''anyOf'', JArr [propertyValue, JObj [(''type'', JStr ''null'')]])] in
      case propertyValue of
        JBool b \<Rightarrow> Inr wrapped
      | JArr xs \<Rightarrow> Inr wrapped
      | JObj pv \<Rightarrow>
          if has_key pv ''type'' then
            (let pv1 =
               (case lookup pv ''type'' of
                  JArr ts \<Rightarrow>
                    if JStr ''null'' \<notin> set ts then upd ''type'' (JArr (ts @ [JStr ''null''])) pv else pv
                | JStr t \<Rightarrow>
                    if t \<noteq> ''null'' then upd ''type'' (JArr [JStr t, JStr ''null'']) pv else pv
                | _ \<Rightarrow> pv)
             in if has_key pv1 ''enum'' then
                  (case lookup pv1 ''enum'' of
                     JArr es \<Rightarrow> Inr (JObj (if JNull \<notin> set es then upd ''enum'' (JArr (es @ [JNull])) pv1 else pv1))
                   | JUndef \<Rightarrow> Inr (JObj pv1)
                   | JNull \<Rightarrow> Inr (JObj pv1)
                   | JStr s \<Rightarrow> Inl Unmodelled
                   | _ \<Rightarrow> Inl TypeError)
                else Inr (JObj pv1))
          else Inr wrapped
      | _ \<Rightarrow> Inl TypeError)"

fun nullable_loop :: "json \<Rightarrow> json \<Rightarrow> string list \<Rightarrow> error + json" where
  "nullable_loop required properties [] = Inr properties"
| "nullable_loop required properties (propertyName # names) =
     and_then (indexOf_found required (JStr propertyName)) (\<lambda>isRequired.
       if isRequired then nullable_loop required properties names
       else and_then (nullable_property (js_get properties propertyName)) (\<lambda>propertyValue.
              and_then (js_put properties propertyName propertyValue) (\<lambda>properties'.
                nullable_loop required properties' names)))"

definition ToNullable :: "SchemaBuilder \<Rightarrow> error + SchemaBuilder" where
  "ToNullable this =
     and_then (IsSimpleObjectSchema this) (\<lambda>simple.
       if \<not> simple then Inl (VError (simple_message ''toNullable''))
       else case CloneJSON (schemaObject this) of
              JObj kvs \<Rightarrow>
                and_then (nullable_loop (or_else (lookup kvs ''required'') (JArr []))
                            (lookup kvs ''properties'') (forin_keys (lookup kvs ''properties'')))
                  (\<lambda>properties.
                     new_SchemaBuilder
                       (JObj (if has_key kvs ''properties'' then upd ''properties'' properties kvs else kvs))
                       (validationConfig this))
            | _ \<Rightarrow> Inl Unmodelled)"

subsection \<open>RenameProperty\<close>



subsection \<open>PickProperties and OmitProperties\<close>

text \<open>
  \<open>pick_loop\<close> is the loop \<^verbatim>\<open>for (let property of properties)\<close> that fills \<^verbatim>\<open>propertiesMap\<close>.
\<close>

fun pick_loop :: "json \<Rightarrow> (string \<times> json) list \<Rightarrow> string list \<Rightarrow> (string \<times> json) list" where
  "pick_loop props propertiesMap [] = propertiesMap"
| "pick_loop props propertiesMap (property # properties) =
     pick_loop props (upd property (js_get props property) propertiesMap) properties"

definition pick_message :: string where
  "pick_message = ''Schema Builder Error: '' @ quoted ''pickProperties''
     @ '' can only be used with a simple object schema (no oneOf, anyOf, allOf or not)''"

definition PickProperties :: "SchemaBuilder \<Rightarrow> string list \<Rightarrow> error + SchemaBuilder" where
  "PickProperties this properties =
     and_then (IsObjectSchema this) (\<lambda>isObj.
       and_then (if isObj then HasSchemasCombinationKeywords this else Inr False) (\<lambda>hasComb.
         if \<not> isObj \<or> hasComb then Inl (VError pick_message)
         else case CloneJSON (schemaObject this) of
                JObj kvs \<Rightarrow>
                  (let schema1 = upd ''properties''
                         (JObj (pick_loop (or_else (lookup kvs ''properties'') (JObj [])) [] properties)) kvs
                   in and_then
                        (if truthy (lookup schema1 ''required'') then
                           and_then (js_filter (\<lambda>r. r \<in> set (map JStr properties)) (lookup schema1 ''required''))
                             (\<lambda>required. Inr (upd ''required'' required schema1))
                         else Inr schema1)
                        (\<lambda>schema2.
                           let schema3 = (case lookup schema2 ''required'' of
                                            JArr [] \<Rightarrow> del ''required'' schema2
                                          | _ \<Rightarrow> schema2)
                           in new_SchemaBuilder (JObj (upd ''additionalProperties'' (JBool False) schema3))
                                (validationConfig this)))
              | _ \<Rightarrow> Inl Unmodelled))"

definition OmitProperties :: "SchemaBuilder \<Rightarrow> string list \<Rightarrow> error + SchemaBuilder" where
  "OmitProperties this properties =
     and_then (IsSimpleObjectSchema this) (\<lambda>simple.
       if \<not> simple then Inl (VError (simple_message ''omitProperties''))
       else PickProperties this
              (filter (\<lambda>k. k \<notin> set properties)
                 (forin_keys (or_else (js_get (schemaObject this) ''properties'') (JObj [])))))"

subsection \<open>MergeProperties\<close>

text \<open>
  \<open>merge_loop\<close> is the loop \<^verbatim>\<open>for (let propertyKey in schemaObject2.properties)\<close>, with
  \<^verbatim>\<open>schemaObject1\<close> as its state.
\<close>

fun merge_loop :: "(string \<times> json) list \<Rightarrow> (string \<times> json) list \<Rightarrow> string list
    \<Rightarrow> error + (string \<times> json) list" where
  "merge_loop schemaObject2 schemaObject1 [] = Inr schemaObject1"
| "merge_loop schemaObject2 schemaObject1 (propertyKey # keys) =
     and_then (js_in propertyKey (lookup schemaObject1 ''properties'')) (\<lambda>present.
       if \<not> present then
         and_then (js_put (lookup schemaObject1 ''properties'') propertyKey
                     (js_get (lookup schemaObject2 ''properties'') propertyKey)) (\<lambda>properties.
           let schema1 = upd ''properties'' properties schemaObject1 in
           and_then (if truthy (lookup schemaObject2 ''required'')
                     then indexOf_found (lookup schemaObject2 ''required'') (JStr propertyKey)
                     else Inr False) (\<lambda>required2.
             if required2 then
               and_then (js_push (or_else (lookup schema1 ''required'') (JArr [])) (JStr propertyKey))
                 (\<lambda>required. merge_loop schemaObject2 (upd ''required'' required schema1) keys)
             else merge_loop schemaObject2 schema1 keys))
       else
         and_then (js_put (lookup schemaObject1 ''properties'') propertyKey
                     (JObj [(''anyOf'', JArr [js_get (lookup schemaObject1 ''properties'') propertyKey,
                                               js_get (lookup schemaObject2 ''properties'') propertyKey])]))
           (\<lambda>properties.
              let schema1 = upd ''properties'' properties schemaObject1 in
              and_then (if truthy (lookup schema1 ''required'')
                        then indexOf_found (lookup schema1 ''required'') (JStr propertyKey)
                        else Inr False) (\<lambda>required1.
                and_then (if required1 \<and> truthy (lookup schemaObject2 ''required'')
                          then indexOf_found (lookup schemaObject2 ''required'') (JStr propertyKey)
                          else Inr False) (\<lambda>required2.
                  if required1 \<and> \<not> required2 then
                    and_then (js_filter (\<lambda>p. p \<noteq> JStr propertyKey) (lookup schema1 ''required''))
                      (\<lambda>required. merge_loop schemaObject2 (upd ''required'' required schema1) keys)
                  else merge_loop schemaObject2 schema1 keys))))"

definition MergeProperties :: "SchemaBuilder \<Rightarrow> SchemaBuilder \<Rightarrow> error + SchemaBuilder" where
  "MergeProperties this schema =
     and_then (IsSimpleObjectSchema this) (\<lambda>simple.
       if \<not> simple then Inl (VError (simple_message ''mergeProperties''))
       else case CloneJSON (schemaObject this) of
              JObj schemaObject1 \<Rightarrow>
                (case CloneJSON (schemaObject schema) of
                   JUndef \<Rightarrow> Inl TypeError
                 | JNull \<Rightarrow> Inl TypeError
                 | JObj schemaObject2 \<Rightarrow>
                     if truthy (lookup schemaObject2 ''properties'') then
                       and_then (merge_loop schemaObject2
                                   (upd ''properties'' (or_else (lookup schemaObject1 ''properties'') (JObj []))
                                      schemaObject1)
                                   (forin_keys (lookup schemaObject2 ''properties'')))
                         (\<lambda>schemaObject1'. new_SchemaBuilder (JObj schemaObject1') (validationConfig this))
                     else new_SchemaBuilder (JObj schemaObject1) (validationConfig this)
                 | _ \<Rightarrow> new_SchemaBuilder (JObj schemaObject1) (validationConfig this))
            | _ \<Rightarrow> Inl Unmodelled)"

section \<open>Notions used by the properties\<close>

text \<open>
  Walking the path \<open>path\<close> from \<open>root\<close> as \<^verbatim>\<open>find\<close> does, some segment reads a falsy value
  (\<^verbatim>\<open>undefined\<close> for a missing key, or a stored \<^verbatim>\<open>false\<close>, \<^verbatim>\<open>0\<close>, \<^verbatim>\<open>''\<close> or \<^verbatim>\<open>null\<close>), every
  segment before it reading a truthy one.
\<close>

fun falsy_on_path :: "string list \<Rightarrow> json \<Rightarrow> bool" where
  "falsy_on_path [] root = False"
| "falsy_on_path (key # path) root =
     (\<not> truthy (js_get root key) \<or> (path \<noteq> [] \<and> falsy_on_path path (js_get root key)))"

text \<open>
  \<open>k\<close> is a length the trimming of \<open>vs\<close> may stop at for the minimum count \<open>ct\<close>: everything
  cut off is \<^verbatim>\<open>undefined\<close>, the first \<open>ct\<close> entries stay, and beyond them the last entry kept
  is defined.
\<close>

definition trimmed :: "int \<Rightarrow> json list \<Rightarrow> nat \<Rightarrow> bool" where
  "trimmed ct vs k = (k \<le> length vs
     \<and> (\<forall>i. k \<le> i \<and> i < length vs \<longrightarrow> vs ! i = JUndef)
     \<and> min (nat ct) (length vs) \<le> k
     \<and> (0 < k \<and> ct < int k \<longrightarrow> vs ! (k - 1) \<noteq> JUndef))"

text \<open>
  The traversal passes a combinator keyword: its value is falsy, or an array all of whose
  elements the traversal passes.
\<close>

definition sub_ok :: "(json \<Rightarrow> error option) \<Rightarrow> json \<Rightarrow> bool" where
  "sub_ok action v = (truthy v \<longrightarrow> (\<exists>xs. v = JArr xs \<and> (\<forall>x\<in>set xs. ThroughJsonSchema action x = None)))"

text \<open>
  The names a schema object requires, and the typing of its \<^verbatim>\<open>required\<close> keyword that
  \<^verbatim>\<open>JSONSchema\<close> promises: absent (or falsy), or an array.
\<close>

definition req_list :: "(string \<times> json) list \<Rightarrow> json list" where
  "req_list kvs = (case lookup kvs ''required'' of JArr rs \<Rightarrow> rs | _ \<Rightarrow> [])"

definition req_typed :: "(string \<times> json) list \<Rightarrow> bool" where
  "req_typed kvs = (truthy (lookup kvs ''required'') \<longrightarrow> (\<exists>rs. lookup kvs ''required'' = JArr rs))"

text \<open>The value has a \<^verbatim>\<open>$ref\<close> key in some object, at any depth and under any keyword.\<close>

fun contains_ref :: "json \<Rightarrow> bool" where
  "contains_ref (JArr xs) = (\<exists>x\<in>set xs. contains_ref x)"
| "contains_ref (JObj kvs) = (has_key kvs ''$ref'' \<or> (\<exists>p\<in>set kvs. contains_ref (snd p)))"
| "contains_ref v = False"

text \<open>
  The typing of the combinator keywords that \<^verbatim>\<open>JSONSchema\<close> promises: in every object of the
  value, \<^verbatim>\<open>oneOf\<close>, \<^verbatim>\<open>allOf\<close> and \<^verbatim>\<open>anyOf\<close> are absent (or falsy) or arrays.
\<close>

fun comb_typed :: "json \<Rightarrow> bool" where
  "comb_typed (JArr xs) = (\<forall>x\<in>set xs. comb_typed x)"
| "comb_typed (JObj kvs) =
     ((\<forall>c\<in>set [''oneOf'', ''allOf'', ''anyOf''].
          truthy (lookup kvs c) \<longrightarrow> (case lookup kvs c of JArr xs \<Rightarrow> True | _ \<Rightarrow> False))
      \<and> (\<forall>p\<in>set kvs. comb_typed (snd p)))"
| "comb_typed v = True"

text \<open>
  \<open>visits s n\<close>: the Deep Traversal of \<open>s\<close> reaches the object \<open>n\<close>, that is, \<open>n\<close> is \<open>s\<close>
  itself, or an element of a sequence, or lies under \<^verbatim>\<open>properties\<close>, a branch of
  \<^verbatim>\<open>oneOf\<close>/\<^verbatim>\<open>allOf\<close>/\<^verbatim>\<open>anyOf\<close>, \<^verbatim>\<open>items\<close>, \<^verbatim>\<open>not\<close> or a schema-valued
  \<^verbatim>\<open>additionalProperties\<close> of a node that is reached.
\<close>

inductive visits :: "json \<Rightarrow> json \<Rightarrow> bool" where
  node: "visits (JObj kvs) (JObj kvs)"
| element: "x \<in> set xs \<Longrightarrow> visits x n \<Longrightarrow> visits (JArr xs) n"
| property: "truthy (lookup kvs ''properties'') \<Longrightarrow> k \<in> set (forin_keys (lookup kvs ''properties''))
    \<Longrightarrow> visits (js_get (lookup kvs ''properties'') k) n \<Longrightarrow> visits (JObj kvs) n"
| branch: "c \<in> set [''oneOf'', ''allOf'', ''anyOf''] \<Longrightarrow> lookup kvs c = JArr xs \<Longrightarrow> x \<in> set xs
    \<Longrightarrow> visits x n \<Longrightarrow> visits (JObj kvs) n"
| single: "c \<in> set [''items'', ''not''] \<Longrightarrow> truthy (lookup kvs c)
    \<Longrightarrow> visits (lookup kvs c) n \<Longrightarrow> visits (JObj kvs) n"
| additional: "truthy (lookup kvs ''additionalProperties'')
    \<Longrightarrow> (case lookup kvs ''additionalProperties'' of JBool b \<Rightarrow> False | _ \<Rightarrow> True)
    \<Longrightarrow> visits (lookup kvs ''additionalProperties'') n \<Longrightarrow> visits (JObj kvs) n"


section \<open>Auxiliary lemmas\<close>

lemma truthy_not_nullish: "truthy v \<Longrightarrow> \<not> nullish v"
  by (cases v) (auto simp: nullish_def)

lemma find_ref_falsy:
  "falsy_on_path path root \<Longrightarrow> \<not> nullish root \<Longrightarrow> find_ref path root = Inr (JObj [])"
proof (induction path arbitrary: root)
  case Nil
  then show ?case by simp
next
  case (Cons key path)
  show ?case
  proof (cases "truthy (js_get root key)")
    case False
    with Cons.prems show ?thesis by simp
  next
    case True
    with Cons.prems have ne: "path \<noteq> []" and f: "falsy_on_path path (js_get root key)" by auto
    from Cons.IH [OF f truthy_not_nullish [OF True]] True ne Cons.prems(2) show ?thesis by simp
  qed
qed

lemma trim_loop_stable: "int k \<le> ct \<Longrightarrow> trim_loop ct vs k = vs"
  by (induction k arbitrary: vs) auto

lemma trim_loop_trimmed: "\<exists>k. trim_loop ct vs (length vs) = take k vs \<and> trimmed ct vs k"
proof (induction vs rule: rev_induct)
  case Nil
  show ?case by (simp add: trimmed_def)
next
  case (snoc v vs)
  show ?case
  proof (cases "v = JUndef")
    case False
    then have "trim_loop ct (vs @ [v]) (length (vs @ [v])) = take (Suc (length vs)) (vs @ [v])"
      by (simp add: nth_or_undef_def)
    moreover have "trimmed ct (vs @ [v]) (Suc (length vs))"
      using False by (auto simp: trimmed_def)
    ultimately show ?thesis by blast
  next
    case True
    show ?thesis
    proof (cases "int (length vs) + 1 > ct")
      case False
      then have "int (length vs) \<le> ct" by simp
      from trim_loop_stable [OF this] True False
      have "trim_loop ct (vs @ [v]) (length (vs @ [v])) = take (Suc (length vs)) (vs @ [v])"
        by (simp add: nth_or_undef_def)
      moreover have "trimmed ct (vs @ [v]) (Suc (length vs))"
        using False by (auto simp: trimmed_def)
      ultimately show ?thesis by blast
    next
      case gt: True
      from snoc obtain k where k: "trim_loop ct vs (length vs) = take k vs" "trimmed ct vs k" by blast
      from True gt have "trim_loop ct (vs @ [v]) (length (vs @ [v])) = trim_loop ct vs (length vs)"
        by (simp add: nth_or_undef_def)
      with k have e: "trim_loop ct (vs @ [v]) (length (vs @ [v])) = take k (vs @ [v])"
        by (simp add: trimmed_def)
      have "trimmed ct (vs @ [v]) k"
        using k(2) True gt by (auto simp: trimmed_def nth_append min_def split: if_splits)
      with e show ?thesis by blast
    qed
  qed
qed


lemma map_defaults_elementwise:
  "length vs = length xs \<Longrightarrow> \<forall>i<length xs. f (xs ! i) = Inr (vs ! i) \<Longrightarrow> map_defaults f xs = Inr vs"
proof (induction xs arbitrary: vs)
  case Nil
  then show ?case by simp
next
  case (Cons x xs)
  then obtain w ws where vs: "vs = w # ws" by (cases vs) auto
  from Cons.prems vs have "f x = Inr w" by auto
  moreover have "map_defaults f xs = Inr ws"
  proof (rule Cons.IH)
    show "length ws = length xs" using Cons.prems vs by simp
    show "\<forall>i<length xs. f (xs ! i) = Inr (ws ! i)"
    proof (intro allI impI)
      fix i assume "i < length xs"
      then have "Suc i < length (x # xs)" by simp
      with Cons.prems(2) have "f ((x # xs) ! Suc i) = Inr (vs ! Suc i)" by blast
      with vs show "f (xs ! i) = Inr (ws ! i)" by simp
    qed
  qed
  ultimately show ?case using vs by simp
qed

lemma and_then_simps [simp]: "and_then (Inr x) f = f x" "and_then (Inl e) f = Inl e"
  by (simp_all add: and_then_def)

lemma and_then_eq_Inr: "and_then m f = Inr y \<longleftrightarrow> (\<exists>x. m = Inr x \<and> f x = Inr y)"
  by (cases m) auto

lemma has_key_Nil [simp]: "\<not> has_key [] k"
  by (simp add: has_key_def)

lemma has_key_Cons [simp]: "has_key (p # kvs) k \<longleftrightarrow> k = fst p \<or> has_key kvs k"
  by (auto simp: has_key_def)

lemma lookup_upd [simp]: "lookup (upd k v kvs) k' = (if k' = k then v else lookup kvs k')"
  by (induction kvs) auto

lemma map_fst_upd:
  "map fst (upd k v kvs) = (if has_key kvs k then map fst kvs else map fst kvs @ [k])"
  by (induction kvs) auto

lemma has_key_upd [simp]: "has_key (upd k v kvs) k' \<longleftrightarrow> k' = k \<or> has_key kvs k'"
  by (induction kvs) (auto split: if_splits)

lemma lookup_del [simp]: "lookup (del k kvs) k' = (if k' = k then JUndef else lookup kvs k')"
  by (induction kvs) (auto simp: del_def)

lemma has_key_del [simp]: "has_key (del k kvs) k' \<longleftrightarrow> k' \<noteq> k \<and> has_key kvs k'"
  by (induction kvs) (auto simp: del_def)

lemma lookup_absent: "\<not> has_key kvs k \<Longrightarrow> lookup kvs k = JUndef"
  by (induction kvs) auto


lemma CloneJSON_id [simp]: "CloneJSON v = v"
proof (induction v)
  case (JArr xs)
  then show ?case by (simp add: map_idI)
next
  case (JObj kvs)
  have "map (\<lambda>(k, v). (k, CloneJSON v)) kvs = kvs"
  proof (rule map_idI)
    fix p assume "p \<in> set kvs"
    with JObj [of p "snd p"] show "(case p of (k, v) \<Rightarrow> (k, CloneJSON v)) = p"
      by (cases p) auto
  qed
  then show ?case by simp
qed simp_all

lemma first_error_None: "first_error rs = None \<longleftrightarrow> (\<forall>r\<in>set rs. r = None)"
  by (induction rs rule: first_error.induct) auto

lemma IsObjectSchema_JObj:
  "schemaObject this = JObj kvs \<Longrightarrow> IsObjectSchema this =
     Inr (lookup kvs ''type'' = JStr ''object'' \<or> (\<not> has_key kvs ''type'' \<and> has_key kvs ''properties''))"
  by (auto simp: IsObjectSchema_def js_in_def nullish_def)

lemma HasSchemasCombinationKeywords_JObj:
  "schemaObject this = JObj kvs \<Longrightarrow> HasSchemasCombinationKeywords this =
     Inr (has_key kvs ''oneOf'' \<or> has_key kvs ''allOf'' \<or> has_key kvs ''anyOf'' \<or> has_key kvs ''not'')"
  by (auto simp: HasSchemasCombinationKeywords_def js_in_def)

lemma IsSimpleObjectSchema_JObj:
  "schemaObject this = JObj kvs \<Longrightarrow> IsSimpleObjectSchema this =
     Inr ((lookup kvs ''type'' = JStr ''object'' \<or> (\<not> has_key kvs ''type'' \<and> has_key kvs ''properties''))
          \<and> lookup kvs ''additionalProperties'' = JBool False
          \<and> \<not> (has_key kvs ''oneOf'' \<or> has_key kvs ''allOf'' \<or> has_key kvs ''anyOf'' \<or> has_key kvs ''not''))"
  by (auto simp: IsSimpleObjectSchema_def HasAdditionalProperties_def IsObjectSchema_JObj
      HasSchemasCombinationKeywords_JObj)

lemma Through_prim [simp]:
  "ThroughJsonSchema action JUndef = None" "ThroughJsonSchema action JNull = None"
  "ThroughJsonSchema action (JBool b) = None" "ThroughJsonSchema action (JNum n) = None"
  "ThroughJsonSchema action (JStr s) = None"
  by (simp_all add: ThroughJsonSchema.simps)

lemma Through_JArr: "ThroughJsonSchema action (JArr xs) = None \<longleftrightarrow> (\<forall>x\<in>set xs. ThroughJsonSchema action x = None)"
  by (subst ThroughJsonSchema.simps) (auto simp: first_error_None)

lemma comb_None:
  "(if truthy v then (case v of JArr xs \<Rightarrow> first_error (map (ThroughJsonSchema action) xs) | _ \<Rightarrow> Some TypeError) else None) = None
   \<longleftrightarrow> sub_ok action v"
  by (cases v) (auto simp: sub_ok_def first_error_None)

lemma Through_JObj:
  "ThroughJsonSchema action (JObj kvs) = None \<longleftrightarrow>
     action (JObj kvs) = None
     \<and> (truthy (lookup kvs ''properties'') \<longrightarrow>
          (\<forall>k\<in>set (forin_keys (lookup kvs ''properties'')).
             ThroughJsonSchema action (js_get (lookup kvs ''properties'') k) = None))
     \<and> sub_ok action (lookup kvs ''oneOf'') \<and> sub_ok action (lookup kvs ''allOf'')
     \<and> sub_ok action (lookup kvs ''anyOf'')
     \<and> (truthy (lookup kvs ''items'') \<longrightarrow> ThroughJsonSchema action (lookup kvs ''items'') = None)
     \<and> (truthy (lookup kvs ''not'') \<longrightarrow> ThroughJsonSchema action (lookup kvs ''not'') = None)
     \<and> (truthy (lookup kvs ''additionalProperties'')
          \<and> (case lookup kvs ''additionalProperties'' of JBool b \<Rightarrow> False | _ \<Rightarrow> True)
          \<longrightarrow> ThroughJsonSchema action (lookup kvs ''additionalProperties'') = None)"
  apply (subst ThroughJsonSchema.simps)
  apply (simp only: json.case first_error_None comb_None list.set ball_simps insert_iff empty_iff)
  apply (simp add: first_error_None)
  apply blast
  done

lemma new_SchemaBuilder_Inr:
  "new_SchemaBuilder s cfg = Inr d \<longleftrightarrow>
     ThroughJsonSchema ref_check s = None \<and> d = \<lparr>schemaObject = s, validationConfig = cfg\<rparr>"
  by (auto simp: new_SchemaBuilder_def split: option.splits)

lemma show_nat_inj_index: "index_of k n = Some i \<Longrightarrow> k \<in> set (map show_nat [0..<n])"
  by (auto simp: index_of_def find_Some_iff)

lemma Through_js_get:
  assumes "\<forall>k\<in>set (forin_keys props). ThroughJsonSchema action (js_get props k) = None"
  shows "ThroughJsonSchema action (js_get props k) = None"
proof (cases props)
  case (JObj ps)
  show ?thesis
  proof (cases "has_key ps k")
    case True
    then have "k \<in> set (forin_keys props)" using JObj by (simp add: has_key_def)
    from bspec [OF assms this] show ?thesis .
  next
    case False
    then have "lookup ps k = JUndef" by (rule lookup_absent)
    with JObj show ?thesis by simp
  qed
next
  case (JArr xs)
  show ?thesis
  proof (cases "k = ''length''")
    case True
    with JArr show ?thesis by simp
  next
    case False
    show ?thesis
    proof (cases "index_of k (length xs)")
      case None
      with JArr False show ?thesis by simp
    next
      case (Some i)
      from show_nat_inj_index [OF Some] JArr have "k \<in> set (forin_keys props)" by simp
      from bspec [OF assms this] show ?thesis .
    qed
  qed
next
  case (JStr s)
  show ?thesis
  proof (cases "k = ''length''")
    case True
    with JStr show ?thesis by simp
  next
    case False
    with JStr show ?thesis by (cases "index_of k (length s)") simp_all
  qed
next
  case JUndef
  then show ?thesis by simp
next
  case JNull
  then show ?thesis by simp
next
  case (JBool b)
  then show ?thesis by simp
next
  case (JNum n)
  then show ?thesis by simp
qed

lemma lookup_pick_loop:
  "lookup (pick_loop props acc names) k = (if k \<in> set names then js_get props k else lookup acc k)"
  by (induction names arbitrary: acc) auto

lemma has_key_pick_loop:
  "has_key (pick_loop props acc names) k \<longleftrightarrow> k \<in> set names \<or> has_key acc k"
  by (induction names arbitrary: acc) auto

lemma PickProperties_object:
  assumes obj: "schemaObject this = JObj kvs"
    and io: "IsObjectSchema this = Inr True"
    and hc: "HasSchemasCombinationKeywords this = Inr False"
    and ok: "ThroughJsonSchema ref_check (JObj kvs) = None"
    and rt: "req_typed kvs"
  shows "\<exists>d. PickProperties this names = Inr d
    \<and> js_get (schemaObject d) ''additionalProperties'' = JBool False
    \<and> (\<exists>P. Properties d = Inr (Some P) \<and> set P = set names)
    \<and> RequiredProperties d = Inr (Some (filter (\<lambda>r. r \<in> set (map JStr names)) (req_list kvs)))"
proof -
  define props where "props = or_else (lookup kvs ''properties'') (JObj [])"
  define pm where "pm = pick_loop props [] names"
  define s1 where "s1 = upd ''properties'' (JObj pm) kvs"
  define f where "f = filter (\<lambda>r. r \<in> set (map JStr names)) (req_list kvs)"
  define s2 where "s2 = (if truthy (lookup kvs ''required'') then upd ''required'' (JArr f) s1 else s1)"
  define s3 where "s3 = (case lookup s2 ''required'' of JArr [] \<Rightarrow> del ''required'' s2 | _ \<Rightarrow> s2)"
  define s4 where "s4 = upd ''additionalProperties'' (JBool False) s3"
  define d where "d = \<lparr>schemaObject = JObj s4, validationConfig = validationConfig this\<rparr>"
  from io obj have io': "lookup kvs ''type'' = JStr ''object'' \<or> (\<not> has_key kvs ''type'' \<and> has_key kvs ''properties'')"
    by (simp add: IsObjectSchema_JObj)
  from hc obj have hc': "\<not> has_key kvs ''oneOf''" "\<not> has_key kvs ''allOf''" "\<not> has_key kvs ''anyOf''" "\<not> has_key kvs ''not''"
    by (simp_all add: HasSchemasCombinationKeywords_JObj)
  have pick: "PickProperties this names = new_SchemaBuilder (JObj s4) (validationConfig this)"
  proof (cases "truthy (lookup kvs ''required'')")
    case True
    with rt obtain rs where "lookup kvs ''required'' = JArr rs" by (auto simp: req_typed_def)
    then show ?thesis
      unfolding PickProperties_def using obj io hc
      by (simp add: Let_def s4_def s3_def s2_def s1_def pm_def props_def f_def req_list_def js_filter_def split: list.splits json.splits)
  next
    case False
    then show ?thesis
      unfolding PickProperties_def using obj io hc
      by (cases "lookup kvs ''required''")
         (simp_all add: Let_def s4_def s3_def s2_def s1_def pm_def props_def f_def req_list_def js_filter_def)
  qed
  have l2: "\<And>k. k \<noteq> ''required'' \<Longrightarrow> lookup s2 k = lookup s1 k"
    by (simp add: s2_def)
  have h2: "\<And>k. k \<noteq> ''required'' \<Longrightarrow> has_key s2 k = has_key s1 k"
    by (simp add: s2_def)
  have l3: "\<And>k. k \<noteq> ''required'' \<Longrightarrow> lookup s3 k = lookup s1 k"
    using l2 by (auto simp: s3_def split: json.splits list.splits)
  have h3: "\<And>k. k \<noteq> ''required'' \<Longrightarrow> has_key s3 k = has_key s1 k"
    using h2 by (auto simp: s3_def split: json.splits list.splits)
  have r2: "lookup s2 ''required'' = (if truthy (lookup kvs ''required'') then JArr f else lookup kvs ''required'')"
    by (simp add: s2_def s1_def)
  have r3: "lookup s3 ''required'' = (if truthy (lookup kvs ''required'') \<and> f \<noteq> [] then JArr f
              else if truthy (lookup kvs ''required'') then JUndef else lookup kvs ''required'')"
  proof (cases "truthy (lookup kvs ''required'')")
    case True
    then show ?thesis using r2 by (cases f) (simp_all add: s3_def)
  next
    case False
    then have "s3 = s2" using r2 by (cases "lookup kvs ''required''") (simp_all add: s3_def)
    with False r2 show ?thesis by simp
  qed
  have l1: "lookup s1 ''properties'' = JObj pm" "\<And>k. k \<noteq> ''properties'' \<Longrightarrow> lookup s1 k = lookup kvs k"
    "\<And>k. k \<noteq> ''properties'' \<Longrightarrow> has_key s1 k = has_key kvs k" "has_key s1 ''properties''"
    by (simp_all add: s1_def)
  have l4: "lookup s4 ''additionalProperties'' = JBool False"
    "\<And>k. k \<noteq> ''additionalProperties'' \<Longrightarrow> lookup s4 k = lookup s3 k"
    "\<And>k. k \<noteq> ''additionalProperties'' \<Longrightarrow> has_key s4 k = has_key s3 k"
    by (simp_all add: s4_def)
  have children: "\<forall>k\<in>set (forin_keys (JObj pm)). ThroughJsonSchema ref_check (js_get (JObj pm) k) = None"
  proof
    fix k assume "k \<in> set (forin_keys (JObj pm))"
    have "ThroughJsonSchema ref_check (js_get props k) = None"
    proof (rule Through_js_get)
      show "\<forall>k\<in>set (forin_keys props). ThroughJsonSchema ref_check (js_get props k) = None"
        using ok by (auto simp: Through_JObj or_else_def props_def)
    qed
    then show "ThroughJsonSchema ref_check (js_get (JObj pm) k) = None"
      by (simp add: lookup_pick_loop pm_def)
  qed
  have noref: "\<not> has_key s4 ''$ref''"
    using ok by (simp add: l4 h3 l1 Through_JObj ref_check_def split: if_splits)
  have ok4: "ThroughJsonSchema ref_check (JObj s4) = None"
    unfolding Through_JObj
  proof (intro conjI)
    show "ref_check (JObj s4) = None" using noref by (simp add: ref_check_def)
    show "truthy (lookup s4 ''properties'') \<longrightarrow>
      (\<forall>k\<in>set (forin_keys (lookup s4 ''properties'')).
          ThroughJsonSchema ref_check (js_get (lookup s4 ''properties'') k) = None)"
      using children by (simp add: l4 l3 l1 del: forin_keys.simps js_get.simps)
    show "sub_ok ref_check (lookup s4 ''oneOf'')" using hc'(1) by (simp add: l4 l3 l1 lookup_absent sub_ok_def)
    show "sub_ok ref_check (lookup s4 ''allOf'')" using hc'(2) by (simp add: l4 l3 l1 lookup_absent sub_ok_def)
    show "sub_ok ref_check (lookup s4 ''anyOf'')" using hc'(3) by (simp add: l4 l3 l1 lookup_absent sub_ok_def)
    show "truthy (lookup s4 ''items'') \<longrightarrow> ThroughJsonSchema ref_check (lookup s4 ''items'') = None"
      using ok by (simp add: l4 l3 l1 Through_JObj)
    show "truthy (lookup s4 ''not'') \<longrightarrow> ThroughJsonSchema ref_check (lookup s4 ''not'') = None"
      using hc'(4) by (simp add: l4 l3 l1 lookup_absent)
    show "truthy (lookup s4 ''additionalProperties'') \<and>
      (case lookup s4 ''additionalProperties'' of JBool b \<Rightarrow> False | _ \<Rightarrow> True) \<longrightarrow>
      ThroughJsonSchema ref_check (lookup s4 ''additionalProperties'') = None"
      by (simp add: l4)
  qed
  have res: "PickProperties this names = Inr d"
    using pick ok4 by (simp add: new_SchemaBuilder_def d_def)
  have io4: "IsObjectSchema d = Inr True"
    using io' by (auto simp: IsObjectSchema_JObj d_def l4 l3 l1 h3)
  have hc4: "HasSchemasCombinationKeywords d = Inr False"
    using hc' by (simp add: HasSchemasCombinationKeywords_JObj d_def l4 l3 l1 h3)
  have P: "Properties d = Inr (Some (map fst pm))"
    using io4 hc4 by (simp add: Properties_def or_else_def) (simp add: d_def l4 l3 l1)
  have sP: "set (map fst pm) = set names"
    using has_key_pick_loop [of props "[]" names] by (auto simp: has_key_def pm_def)
  have R: "RequiredProperties d = Inr (Some f)"
  proof (cases "truthy (lookup kvs ''required'')")
    case True
    with r3 have "lookup s4 ''required'' = (if f \<noteq> [] then JArr f else JUndef)" by (simp add: l4)
    then show ?thesis using io4 hc4 by (simp add: RequiredProperties_def) (simp add: d_def)
  next
    case False
    with r3 have "lookup s4 ''required'' = lookup kvs ''required''" by (simp add: l4)
    moreover have "f = []" using False by (cases "lookup kvs ''required''") (simp_all add: f_def req_list_def)
    ultimately show ?thesis using io4 hc4 False by (simp add: RequiredProperties_def) (simp add: d_def)
  qed
  have A: "js_get (schemaObject d) ''additionalProperties'' = JBool False"
    by (simp add: d_def l4)
  from res P sP R A show ?thesis unfolding f_def by blast
qed

lemma visits_fails:
  "visits s n \<Longrightarrow> n = JObj kvs' \<Longrightarrow> has_key kvs' ''$ref'' \<Longrightarrow> ThroughJsonSchema ref_check s \<noteq> None"
proof (induction rule: visits.induct)
  case (node kvs)
  then show ?case by (simp add: Through_JObj ref_check_def)
next
  case (element x xs n)
  then show ?case by (auto simp: Through_JArr)
next
  case (property kvs k n)
  then show ?case by (auto simp: Through_JObj)
next
  case (branch c kvs xs x n)
  then have "\<not> sub_ok ref_check (lookup kvs c)" by (auto simp: sub_ok_def)
  with branch.hyps(1) show ?case by (auto simp: Through_JObj)
next
  case (single c kvs n)
  then show ?case by (auto simp: Through_JObj)
next
  case (additional kvs n)
  then show ?case by (auto simp: Through_JObj)
qed

lemma lookup_in_set: "lookup kvs k \<noteq> JUndef \<Longrightarrow> \<exists>p\<in>set kvs. snd p = lookup kvs k"
  by (induction kvs) (auto split: if_splits)

lemma contains_ref_lookup: "\<not> contains_ref (JObj kvs) \<Longrightarrow> \<not> contains_ref (lookup kvs k)"
  using lookup_in_set [of kvs k] by (cases "lookup kvs k = JUndef") auto

lemma comb_typed_lookup: "comb_typed (JObj kvs) \<Longrightarrow> comb_typed (lookup kvs k)"
  using lookup_in_set [of kvs k] by (cases "lookup kvs k = JUndef") auto

lemma contains_ref_js_get:
  assumes "\<not> contains_ref v"
  shows "\<not> contains_ref (js_get v k)"
proof (cases v)
  case (JObj kvs)
  with assms contains_ref_lookup [of kvs k] show ?thesis by simp
next
  case (JArr xs)
  with assms show ?thesis
    by (cases "index_of k (length xs)") (auto dest: index_of_less)
next
  case (JStr s)
  then show ?thesis by (cases "index_of k (length s)") auto
qed auto

lemma comb_typed_js_get:
  assumes "comb_typed v"
  shows "comb_typed (js_get v k)"
proof (cases v)
  case (JObj kvs)
  with assms comb_typed_lookup [of kvs k] show ?thesis by simp
next
  case (JArr xs)
  with assms show ?thesis
    by (cases "index_of k (length xs)") (auto dest: index_of_less)
next
  case (JStr s)
  then show ?thesis by (cases "index_of k (length s)") auto
qed auto

lemma no_ref_passes:
  "\<not> contains_ref s \<Longrightarrow> comb_typed s \<Longrightarrow> ThroughJsonSchema ref_check s = None"
proof (induction s rule: measure_induct_rule [of size])
  case (less s)
  show ?case
  proof (cases s)
    case (JArr xs)
    have "ThroughJsonSchema ref_check x = None" if "x \<in> set xs" for x
    proof (rule less.IH)
      show "size x < size s" using that JArr elem_size [of x xs] by simp
      show "\<not> contains_ref x" using that less.prems(1) JArr by auto
      show "comb_typed x" using that less.prems(2) JArr by auto
    qed
    with JArr show ?thesis by (simp add: Through_JArr)
  next
    case (JObj kvs)
    have nr: "\<not> contains_ref (JObj kvs)" and ct: "comb_typed (JObj kvs)"
      using less.prems JObj by simp_all
    have sub: "ThroughJsonSchema ref_check (lookup kvs c) = None" if "truthy (lookup kvs c)" for c
    proof (rule less.IH)
      show "size (lookup kvs c) < size s" using lookup_size_truthy [OF that] JObj by simp
      show "\<not> contains_ref (lookup kvs c)" by (rule contains_ref_lookup [OF nr])
      show "comb_typed (lookup kvs c)" by (rule comb_typed_lookup [OF ct])
    qed
    have props: "ThroughJsonSchema ref_check (js_get (lookup kvs ''properties'') k) = None"
      if "truthy (lookup kvs ''properties'')" for k
    proof (rule less.IH)
      show "size (js_get (lookup kvs ''properties'') k) < size s"
        using lookup_get_size [OF that, of k] JObj by simp
      show "\<not> contains_ref (js_get (lookup kvs ''properties'') k)"
        by (rule contains_ref_js_get [OF contains_ref_lookup [OF nr]])
      show "comb_typed (js_get (lookup kvs ''properties'') k)"
        by (rule comb_typed_js_get [OF comb_typed_lookup [OF ct]])
    qed
    have comb: "sub_ok ref_check (lookup kvs c)" if c: "c \<in> set [''oneOf'', ''allOf'', ''anyOf'']" for c
      unfolding sub_ok_def
    proof
      assume t: "truthy (lookup kvs c)"
      with ct c obtain xs where xs: "lookup kvs c = JArr xs"
        by (cases "lookup kvs c") auto
      from sub [OF t] xs have "\<forall>x\<in>set xs. ThroughJsonSchema ref_check x = None"
        by (simp add: Through_JArr)
      with xs show "\<exists>xs. lookup kvs c = JArr xs \<and> (\<forall>x\<in>set xs. ThroughJsonSchema ref_check x = None)"
        by blast
    qed
    have "ref_check (JObj kvs) = None" using nr by (simp add: ref_check_def)
    with sub props comb JObj show ?thesis by (simp add: Through_JObj)
  qed (simp_all)
qed

section \<open>The properties\<close>

text \<open>
  C10. During default resolution \<^verbatim>\<open>getLocalRef\<close> treats a path segment whose value in the
  definitions is falsy (\<^verbatim>\<open>false\<close>, \<^verbatim>\<open>0\<close>, the empty string or \<^verbatim>\<open>null\<close>) like a missing segment:
  the reference resolves to the empty mapping and not to the stored value, so that a schema
  \<^verbatim>\<open>{$ref: p}\<close> gets the default of the empty schema and an \<^verbatim>\<open>allOf\<close> element \<^verbatim>\<open>{$ref: p}\<close> is
  merged as \<^verbatim>\<open>{}\<close>.
\<close>

theorem getLocalRef_falsy_segment:
  assumes "\<not> nullish definitions" and "falsy_on_path (ref_path p) definitions"
  shows "getLocalRef (JStr p) definitions = Inr (JObj [])
    \<and> defaults (Suc n) (JObj [(''$ref'', JStr p)]) definitions = defaults n (JObj []) definitions
    \<and> mergeAllOf_loop definitions result (JObj [(''$ref'', JStr p)] # items)
        = mergeAllOf_loop definitions result (JObj [] # items)"
proof -
  have "getLocalRef (JStr p) definitions = Inr (JObj [])"
    using find_ref_falsy [OF assms(2) assms(1)] by (simp add: getLocalRef_def cloneJSON_def)
  then show ?thesis by (simp add: nullish_def)
qed

theorem getLocalRef_falsy_segment_witness:
  "\<not> nullish (JObj [(''a'', JObj [(''b'', JNum 0)])])
   \<and> falsy_on_path (ref_path ''#/definitions/a/b'') (JObj [(''a'', JObj [(''b'', JNum 0)])])
   \<and> getLocalRef (JStr ''#/definitions/a/b'') (JObj [(''a'', JObj [(''b'', JNum 0)])]) = Inr (JObj [])
   \<and> defaults (Suc (Suc 0)) (JObj [(''$ref'', JStr ''#/definitions/a/b'')])
        (JObj [(''a'', JObj [(''b'', JNum 0)])]) = Inr JUndef"
proof -
  have h1: "\<not> nullish (JObj [(''a'', JObj [(''b'', JNum 0)])])"
    by (simp add: nullish_def)
  have h2: "falsy_on_path (ref_path ''#/definitions/a/b'') (JObj [(''a'', JObj [(''b'', JNum 0)])])"
    by (simp add: ref_path_def strip_prefix_def)
  from getLocalRef_falsy_segment [OF h1 h2, of 1] h1 h2 show ?thesis
    by (simp add: nullish_def)
qed

text \<open>
  C6 (as amended). For an array schema with tuple-form items and minimum count \<open>m\<close> (0 when
  \<^verbatim>\<open>minItems\<close> is absent), the computed default is the sequence \<open>vals\<close> of the defaults of the
  positions with trailing \<^verbatim>\<open>undefined\<close> entries removed, the entries at positions 1..\<open>m\<close>
  never being removed: the result is the prefix of some length \<open>k\<close>, all entries from \<open>k\<close> on
  are \<^verbatim>\<open>undefined\<close>, \<open>k\<close> is at least the smaller of \<open>m\<close> and the number of positions, and
  when \<open>k\<close> exceeds \<open>m\<close> the last entry kept is defined.
\<close>

theorem defaults_tuple_items:
  assumes "js_get schema ''default'' = JUndef" and "js_get schema ''allOf'' = JUndef"
    and "js_get schema ''$ref'' = JUndef" and "js_get schema ''type'' = JStr ''array''"
    and "js_get schema ''items'' = JArr items" and "min_items schema = Inr m"
    and "length vals = length items"
    and "\<forall>i<length items. defaults n (items ! i) definitions = Inr (vals ! i)"
  shows "\<exists>k. defaults (Suc n) schema definitions = Inr (JArr (take k vals))
    \<and> k \<le> length items
    \<and> (\<forall>i. k \<le> i \<and> i < length items \<longrightarrow> vals ! i = JUndef)
    \<and> min (nat m) (length items) \<le> k
    \<and> (0 < k \<and> m < int k \<longrightarrow> vals ! (k - 1) \<noteq> JUndef)"
proof -
  have nn: "\<not> nullish schema" using assms(4) by (auto simp: nullish_def)
  have md: "map_defaults (\<lambda>item. defaults n item definitions) items = Inr vals"
    using assms(7,8) by (rule map_defaults_elementwise)
  have d: "defaults (Suc n) schema definitions = Inr (JArr (trim_loop m vals (length vals)))"
    using nn md assms(1-6) by simp
  from trim_loop_trimmed [of m vals] obtain k
    where "trim_loop m vals (length vals) = take k vals" "trimmed m vals k" by blast
  with d assms(7) show ?thesis unfolding trimmed_def by auto
qed

theorem defaults_tuple_items_witness:
  "defaults (Suc (Suc 0))
     (JObj [(''type'', JStr ''array''), (''items'', JArr [JObj [(''default'', JNum 1)], JObj []]),
            (''minItems'', JNum 1)]) (JObj [])
   = Inr (JArr [JNum 1])"
proof -
  let ?s = "JObj [(''type'', JStr ''array''), (''items'', JArr [JObj [(''default'', JNum 1)], JObj []]),
            (''minItems'', JNum 1)]"
  have e: "\<forall>i<length [JObj [(''default'', JNum 1)], JObj []].
      defaults (Suc 0) ([JObj [(''default'', JNum 1)], JObj []] ! i) (JObj []) = Inr ([JNum 1, JUndef] ! i)"
    by (simp add: nullish_def less_Suc_eq)
  have "\<exists>k. defaults (Suc (Suc 0)) ?s (JObj []) = Inr (JArr (take k [JNum 1, JUndef]))
    \<and> k \<le> length [JObj [(''default'', JNum 1)], JObj []]
    \<and> (\<forall>i. k \<le> i \<and> i < length [JObj [(''default'', JNum 1)], JObj []] \<longrightarrow> [JNum 1, JUndef] ! i = JUndef)
    \<and> min (nat 1) (length [JObj [(''default'', JNum 1)], JObj []]) \<le> k
    \<and> (0 < k \<and> 1 < int k \<longrightarrow> [JNum 1, JUndef] ! (k - 1) \<noteq> JUndef)"
    by (rule defaults_tuple_items [where m = 1 and n = "Suc 0"])
       (simp_all add: min_items_def e del: defaults.simps)
  then obtain k where k: "defaults (Suc (Suc 0)) ?s (JObj []) = Inr (JArr (take k [JNum 1, JUndef]))"
    "k \<le> 2" "1 \<le> k" "0 < k \<and> 1 < int k \<longrightarrow> [JNum 1, JUndef] ! (k - 1) \<noteq> JUndef"
    by auto
  then have "k = 1" by (cases "k = 2") auto
  with k(1) show ?thesis by simp
qed

text \<open>
  C6 as stated fails where the tuple has fewer positions than \<^verbatim>\<open>minItems\<close>: the result
  cannot be longer than the tuple.
\<close>

theorem defaults_tuple_short_counterexample:
  "defaults (Suc (Suc 0))
     (JObj [(''type'', JStr ''array''), (''items'', JArr [JObj []]), (''minItems'', JNum 2)]) (JObj [])
   = Inr (JArr [JUndef]) \<and> length [JUndef] < (2::nat)"
  by (simp add: nullish_def min_items_def nth_or_undef_def)
text \<open>
  C3 (as amended). \<^verbatim>\<open>PickProperties(names)\<close> checks \<^verbatim>\<open>IsObjectSchema\<close> and
  \<^verbatim>\<open>HasSchemasCombinationKeywords\<close> only: on a document that is not an object schema or has a
  combinator keyword it fails with the precondition error that names \<^verbatim>\<open>pickProperties\<close>; on
  every other document it succeeds, also when \<^verbatim>\<open>additionalProperties\<close> is not \<^verbatim>\<open>false\<close>, and
  the result has \<^verbatim>\<open>additionalProperties\<close> \<^verbatim>\<open>false\<close>.
\<close>

theorem PickProperties_precondition:
  assumes "new_SchemaBuilder (JObj kvs) cfg = Inr this" and "req_typed kvs"
  shows "(IsObjectSchema this = Inr True \<and> HasSchemasCombinationKeywords this = Inr False
            \<longrightarrow> (\<exists>d. PickProperties this names = Inr d
                    \<and> js_get (schemaObject d) ''additionalProperties'' = JBool False))
       \<and> (\<not> (IsObjectSchema this = Inr True \<and> HasSchemasCombinationKeywords this = Inr False)
            \<longrightarrow> PickProperties this names = Inl (VError pick_message))"
proof -
  from assms(1) have obj: "schemaObject this = JObj kvs"
    and ok: "ThroughJsonSchema ref_check (JObj kvs) = None"
    by (auto simp: new_SchemaBuilder_Inr)
  have "PickProperties this names = Inl (VError pick_message)"
    if "\<not> (IsObjectSchema this = Inr True \<and> HasSchemasCombinationKeywords this = Inr False)"
    using that obj
    by (auto simp: PickProperties_def IsObjectSchema_JObj HasSchemasCombinationKeywords_JObj)
  moreover have "\<exists>d. PickProperties this names = Inr d
                    \<and> js_get (schemaObject d) ''additionalProperties'' = JBool False"
    if "IsObjectSchema this = Inr True" "HasSchemasCombinationKeywords this = Inr False"
    using PickProperties_object [OF obj that ok assms(2), of names] by blast
  ultimately show ?thesis by blast
qed

theorem PickProperties_precondition_witness:
  "(\<exists>d. PickProperties \<lparr>schemaObject = JObj [(''type'', JStr ''object''),
        (''properties'', JObj [(''a'', JObj [(''type'', JStr ''string'')])])],
      validationConfig = JUndef\<rparr> [''a''] = Inr d
        \<and> js_get (schemaObject d) ''additionalProperties'' = JBool False)
   \<and> PickProperties \<lparr>schemaObject = JObj [(''type'', JStr ''object''), (''oneOf'', JArr [])],
      validationConfig = JUndef\<rparr> [''a''] = Inl (VError pick_message)"
proof -
  have o1: "new_SchemaBuilder (JObj [(''type'', JStr ''object''),
        (''properties'', JObj [(''a'', JObj [(''type'', JStr ''string'')])])]) JUndef
      = Inr \<lparr>schemaObject = JObj [(''type'', JStr ''object''),
        (''properties'', JObj [(''a'', JObj [(''type'', JStr ''string'')])])],
      validationConfig = JUndef\<rparr>"
    by code_simp
  have o2: "req_typed [(''type'', JStr ''object''),
        (''properties'', JObj [(''a'', JObj [(''type'', JStr ''string'')])])]"
    by (simp add: req_typed_def)
  have o3: "IsObjectSchema \<lparr>schemaObject = JObj [(''type'', JStr ''object''),
        (''properties'', JObj [(''a'', JObj [(''type'', JStr ''string'')])])],
      validationConfig = JUndef\<rparr> = Inr True
      \<and> HasSchemasCombinationKeywords \<lparr>schemaObject = JObj [(''type'', JStr ''object''),
        (''properties'', JObj [(''a'', JObj [(''type'', JStr ''string'')])])],
      validationConfig = JUndef\<rparr> = Inr False"
    by code_simp
  have c1: "new_SchemaBuilder (JObj [(''type'', JStr ''object''), (''oneOf'', JArr [])]) JUndef
      = Inr \<lparr>schemaObject = JObj [(''type'', JStr ''object''), (''oneOf'', JArr [])],
      validationConfig = JUndef\<rparr>"
    by code_simp
  have c2: "req_typed [(''type'', JStr ''object''), (''oneOf'', JArr [])]"
    by (simp add: req_typed_def)
  have c3: "\<not> (IsObjectSchema \<lparr>schemaObject = JObj [(''type'', JStr ''object''), (''oneOf'', JArr [])],
      validationConfig = JUndef\<rparr> = Inr True
      \<and> HasSchemasCombinationKeywords \<lparr>schemaObject = JObj [(''type'', JStr ''object''), (''oneOf'', JArr [])],
      validationConfig = JUndef\<rparr> = Inr False)"
    by code_simp
  from PickProperties_precondition [OF o1 o2, of "[''a'']"] o3
    PickProperties_precondition [OF c1 c2, of "[''a'']"] c3
  show ?thesis by blast
qed

text \<open>
  C3 as stated fails on an object schema without combinator keywords whose
  \<^verbatim>\<open>additionalProperties\<close> is not \<^verbatim>\<open>false\<close>: it is not a simple object schema, and
  \<^verbatim>\<open>PickProperties\<close> returns a document.
\<close>

theorem PickProperties_open_object_counterexample:
  "IsSimpleObjectSchema \<lparr>schemaObject = JObj [(''type'', JStr ''object''),
        (''properties'', JObj [(''a'', JObj [(''type'', JStr ''string'')])])],
      validationConfig = JUndef\<rparr> = Inr False
   \<and> PickProperties \<lparr>schemaObject = JObj [(''type'', JStr ''object''),
        (''properties'', JObj [(''a'', JObj [(''type'', JStr ''string'')])])],
      validationConfig = JUndef\<rparr> [''a'']
     = Inr \<lparr>schemaObject = JObj [(''type'', JStr ''object''),
        (''properties'', JObj [(''a'', JObj [(''type'', JStr ''string'')])]),
        (''additionalProperties'', JBool False)],
      validationConfig = JUndef\<rparr>"
  by code_simp

text \<open>
  C8. For a simple object schema with property names \<open>P\<close>, names \<open>K\<close> among \<open>P\<close> and names
  \<open>L\<close> that are exactly the other names of \<open>P\<close>, \<^verbatim>\<open>PickProperties(K)\<close> and
  \<^verbatim>\<open>OmitProperties(L)\<close> both return documents, with the same set of property names and the
  same list of required names.
\<close>

theorem PickProperties_OmitProperties_complement:
  assumes "new_SchemaBuilder (JObj kvs) cfg = Inr this" and "req_typed kvs"
    and "IsSimpleObjectSchema this = Inr True"
    and "Properties this = Inr (Some P)" and "set K \<subseteq> set P" and "set L = set P - set K"
  shows "\<exists>d1 d2 P1 P2 R. PickProperties this K = Inr d1 \<and> OmitProperties this L = Inr d2
    \<and> Properties d1 = Inr (Some P1) \<and> Properties d2 = Inr (Some P2) \<and> set P1 = set P2
    \<and> RequiredProperties d1 = Inr (Some R) \<and> RequiredProperties d2 = Inr (Some R)"
proof -
  from assms(1) have obj: "schemaObject this = JObj kvs"
    and ok: "ThroughJsonSchema ref_check (JObj kvs) = None"
    by (auto simp: new_SchemaBuilder_Inr)
  from assms(3) obj have io: "IsObjectSchema this = Inr True"
    and hc: "HasSchemasCombinationKeywords this = Inr False"
    by (auto simp: IsSimpleObjectSchema_JObj IsObjectSchema_JObj HasSchemasCombinationKeywords_JObj)
  define p where "p = filter (\<lambda>k. k \<notin> set L) (forin_keys (or_else (js_get (schemaObject this) ''properties'') (JObj [])))"
  from assms(4) io hc have P: "P = forin_keys (or_else (js_get (schemaObject this) ''properties'') (JObj []))"
    by (simp add: Properties_def)
  have sp: "set p = set K" using assms(5,6) by (auto simp: p_def P)
  have omit: "OmitProperties this L = PickProperties this p"
    using assms(3) by (simp add: OmitProperties_def p_def)
  from PickProperties_object [OF obj io hc ok assms(2), of K] obtain d1 P1
    where 1: "PickProperties this K = Inr d1" "Properties d1 = Inr (Some P1)" "set P1 = set K"
      "RequiredProperties d1 = Inr (Some (filter (\<lambda>r. r \<in> set (map JStr K)) (req_list kvs)))"
    by blast
  from PickProperties_object [OF obj io hc ok assms(2), of p] obtain d2 P2
    where 2: "PickProperties this p = Inr d2" "Properties d2 = Inr (Some P2)" "set P2 = set p"
      "RequiredProperties d2 = Inr (Some (filter (\<lambda>r. r \<in> set (map JStr p)) (req_list kvs)))"
    by blast
  have "filter (\<lambda>r. r \<in> set (map JStr p)) (req_list kvs) = filter (\<lambda>r. r \<in> set (map JStr K)) (req_list kvs)"
    using sp by simp
  with 1 2 omit sp show ?thesis by (intro exI [of _ d1] exI [of _ d2] exI [of _ P1] exI [of _ P2]) auto
qed

theorem PickProperties_OmitProperties_complement_witness:
  "\<exists>d1 d2 P1 P2 R.
     PickProperties \<lparr>schemaObject = JObj [(''type'', JStr ''object''),
        (''properties'', JObj [(''a'', JObj [(''type'', JStr ''string'')]),
                               (''b'', JObj [(''type'', JStr ''integer'')]),
                               (''c'', JObj [(''enum'', JArr [JNum 1])])]),
        (''required'', JArr [JStr ''a'', JStr ''b'']),
        (''additionalProperties'', JBool False)],
      validationConfig = JUndef\<rparr> [''c'', ''a''] = Inr d1
     \<and> OmitProperties \<lparr>schemaObject = JObj [(''type'', JStr ''object''),
        (''properties'', JObj [(''a'', JObj [(''type'', JStr ''string'')]),
                               (''b'', JObj [(''type'', JStr ''integer'')]),
                               (''c'', JObj [(''enum'', JArr [JNum 1])])]),
        (''required'', JArr [JStr ''a'', JStr ''b'']),
        (''additionalProperties'', JBool False)],
      validationConfig = JUndef\<rparr> [''b''] = Inr d2
     \<and> Properties d1 = Inr (Some P1) \<and> Properties d2 = Inr (Some P2) \<and> set P1 = set P2
     \<and> RequiredProperties d1 = Inr (Some R) \<and> RequiredProperties d2 = Inr (Some R)"
proof -
  have h1: "new_SchemaBuilder (JObj [(''type'', JStr ''object''),
        (''properties'', JObj [(''a'', JObj [(''type'', JStr ''string'')]),
                               (''b'', JObj [(''type'', JStr ''integer'')]),
                               (''c'', JObj [(''enum'', JArr [JNum 1])])]),
        (''required'', JArr [JStr ''a'', JStr ''b'']),
        (''additionalProperties'', JBool False)]) JUndef
      = Inr \<lparr>schemaObject = JObj [(''type'', JStr ''object''),
        (''properties'', JObj [(''a'', JObj [(''type'', JStr ''string'')]),
                               (''b'', JObj [(''type'', JStr ''integer'')]),
                               (''c'', JObj [(''enum'', JArr [JNum 1])])]),
        (''required'', JArr [JStr ''a'', JStr ''b'']),
        (''additionalProperties'', JBool False)],
      validationConfig = JUndef\<rparr>"
    by code_simp
  have h2: "req_typed [(''type'', JStr ''object''),
        (''properties'', JObj [(''a'', JObj [(''type'', JStr ''string'')]),
                               (''b'', JObj [(''type'', JStr ''integer'')]),
                               (''c'', JObj [(''enum'', JArr [JNum 1])])]),
        (''required'', JArr [JStr ''a'', JStr ''b'']),
        (''additionalProperties'', JBool False)]"
    by (simp add: req_typed_def)
  have h3: "IsSimpleObjectSchema \<lparr>schemaObject = JObj [(''type'', JStr ''object''),
        (''properties'', JObj [(''a'', JObj [(''type'', JStr ''string'')]),
                               (''b'', JObj [(''type'', JStr ''integer'')]),
                               (''c'', JObj [(''enum'', JArr [JNum 1])])]),
        (''required'', JArr [JStr ''a'', JStr ''b'']),
        (''additionalProperties'', JBool False)],
      validationConfig = JUndef\<rparr> = Inr True"
    by code_simp
  have h4: "Properties \<lparr>schemaObject = JObj [(''type'', JStr ''object''),
        (''properties'', JObj [(''a'', JObj [(''type'', JStr ''string'')]),
                               (''b'', JObj [(''type'', JStr ''integer'')]),
                               (''c'', JObj [(''enum'', JArr [JNum 1])])]),
        (''required'', JArr [JStr ''a'', JStr ''b'']),
        (''additionalProperties'', JBool False)],
      validationConfig = JUndef\<rparr> = Inr (Some [''a'', ''b'', ''c''])"
    by code_simp
  have h5: "set [''c'', ''a''] \<subseteq> set [''a'', ''b'', ''c'']" by simp
  have h6: "set [''b''] = set [''a'', ''b'', ''c''] - set [''c'', ''a'']" by auto
  from PickProperties_OmitProperties_complement [OF h1 h2 h3 h4 h5 h6] show ?thesis .
qed




text \<open>
  C4 (as amended). Constructing a \<^verbatim>\<open>SchemaBuilder\<close> fails when an object that the Deep
  Traversal reaches has a \<^verbatim>\<open>$ref\<close> key, and it succeeds on a value that has no \<^verbatim>\<open>$ref\<close> key at
  all (and whose combinator keywords are typed as \<^verbatim>\<open>JSONSchema\<close> says).
\<close>

theorem new_SchemaBuilder_ref:
  "(visits s (JObj n) \<and> has_key n ''$ref'' \<longrightarrow> (\<exists>e. new_SchemaBuilder s config = Inl e))
   \<and> (\<not> contains_ref s \<and> comb_typed s \<longrightarrow>
        new_SchemaBuilder s config = Inr \<lparr>schemaObject = s, validationConfig = config\<rparr>)"
proof (intro conjI impI)
  assume "visits s (JObj n) \<and> has_key n ''$ref''"
  then have "ThroughJsonSchema ref_check s \<noteq> None" using visits_fails by blast
  then show "\<exists>e. new_SchemaBuilder s config = Inl e"
    by (auto simp: new_SchemaBuilder_def)
next
  assume "\<not> contains_ref s \<and> comb_typed s"
  then have "ThroughJsonSchema ref_check s = None" using no_ref_passes by blast
  then show "new_SchemaBuilder s config = Inr \<lparr>schemaObject = s, validationConfig = config\<rparr>"
    by (simp add: new_SchemaBuilder_def)
qed

theorem new_SchemaBuilder_ref_witness:
  "(\<exists>e. new_SchemaBuilder
      (JObj [(''type'', JStr ''object''),
             (''properties'', JObj [(''a'', JObj [(''$ref'', JStr ''#/definitions/A'')])])]) JUndef = Inl e)
   \<and> new_SchemaBuilder (JObj [(''type'', JStr ''string'')]) JUndef
       = Inr \<lparr>schemaObject = JObj [(''type'', JStr ''string'')], validationConfig = JUndef\<rparr>"
proof -
  let ?n = "[(''$ref'', JStr ''#/definitions/A'')]"
  let ?kvs = "[(''type'', JStr ''object''), (''properties'', JObj [(''a'', JObj ?n)])]"
  have "visits (js_get (lookup ?kvs ''properties'') ''a'') (JObj ?n)"
    by (simp add: visits.node)
  then have v: "visits (JObj ?kvs) (JObj ?n)"
    by (rule visits.property [rotated 2]) simp_all
  have h: "has_key ?n ''$ref''" by simp
  have c: "\<not> contains_ref (JObj [(''type'', JStr ''string'')]) \<and> comb_typed (JObj [(''type'', JStr ''string'')])"
    by simp
  from new_SchemaBuilder_ref [of "JObj ?kvs" ?n JUndef] v h
    new_SchemaBuilder_ref [of "JObj [(''type'', JStr ''string'')]" n JUndef] c
  show ?thesis by blast
qed

text \<open>
  C4 as stated fails for a \<^verbatim>\<open>$ref\<close> under a keyword the traversal does not descend into,
  such as \<^verbatim>\<open>definitions\<close>: the construction succeeds.
\<close>

theorem new_SchemaBuilder_ref_counterexample:
  "contains_ref (JObj [(''definitions'', JObj [(''A'', JObj [(''$ref'', JStr ''#/definitions/B'')])])])
   \<and> new_SchemaBuilder
        (JObj [(''definitions'', JObj [(''A'', JObj [(''$ref'', JStr ''#/definitions/B'')])])]) JUndef
      = Inr \<lparr>schemaObject =
                JObj [(''definitions'', JObj [(''A'', JObj [(''$ref'', JStr ''#/definitions/B'')])])],
              validationConfig = JUndef\<rparr>"
  by code_simp
end
